theory Spec2Isabelle
  imports Main "HOL-Library.Word"
begin

unbundle bit_operations_syntax

section \<open>Quasar flashlight firmware: configuration and mode tables\<close>

text \<open>
  The repository holds three firmware sources that share one design:
  \<^item> \<^verbatim>\<open>Nanjg/quasar.c\<close> (v1.0, one-byte log record), suffix \<open>_v1\<close> below;
  \<^item> \<^verbatim>\<open>Nanjg/Atmel Studio project/Quasar/main.c\<close> (v2.0, two-byte record, on-time
    memory), suffix \<open>_nanjg\<close>;
  \<^item> \<^verbatim>\<open>A17DD-L/Atmel Studio project/Quasar/main.c\<close> (v2.0, two-byte record, off-time
    capacitor), suffix \<open>_a17\<close>.
  A C \<^verbatim>\<open>byte\<close> (\<^verbatim>\<open>uint8_t\<close>) is an 8-bit word. The compile-time settings
  \<^verbatim>\<open>MODES_COUNT\<close>, \<^verbatim>\<open>GROUPS_COUNT\<close>, the \<^verbatim>\<open>groups\<close> table and the memory
  mode (\<^verbatim>\<open>MEM_LAST\<close>, \<^verbatim>\<open>MEM_FIRST\<close>, \<^verbatim>\<open>MEM_NEXT\<close>) are collected in a
  configuration record; the three configurations of the sources are given as constants.
\<close>

type_synonym byte = "8 word"

datatype mem_policy = MEM_LAST | MEM_FIRST | MEM_NEXT

record config =
  MODES_COUNT :: nat
  GROUPS_COUNT :: nat
  groups :: "byte list list"
  MEM :: mem_policy

definition STROBE :: byte where "STROBE = 254"
definition PSTROBE :: byte where "PSTROBE = 253"
definition SOS :: byte where "SOS = 252"

definition STROBE_a17 :: byte where "STROBE_a17 = 126"
definition PSTROBE_a17 :: byte where "PSTROBE_a17 = 125"
definition SOS_a17 :: byte where "SOS_a17 = 124"

definition BATTMON :: byte where "BATTMON = 125"
definition BATTCHECK :: byte where "BATTCHECK = 16"
definition LOCKTIME :: byte where "LOCKTIME = 50"
definition CAP_THRESHOLD :: byte where "CAP_THRESHOLD = 190"
definition TURBO_TIMEOUT :: byte where "TURBO_TIMEOUT = 60"
definition GROUP_CHANGE_MODE :: byte where "GROUP_CHANGE_MODE = 0"

text \<open>The table of \<^verbatim>\<open>quasar.c\<close>: two groups of seven modes.\<close>

definition v1_config :: config where
  "v1_config = \<lparr> MODES_COUNT = 7, GROUPS_COUNT = 2,
     groups = [[6, 32, 128, 255, 0, 0, 0],
               [6, 32, 128, 255, STROBE, PSTROBE, SOS]],
     MEM = MEM_LAST \<rparr>"

text \<open>The table of the Nanjg \<^verbatim>\<open>main.c\<close>: two groups of eight slots.\<close>

definition nanjg_config :: config where
  "nanjg_config = \<lparr> MODES_COUNT = 8, GROUPS_COUNT = 2,
     groups = [[6, 32, 128, 255, 0, 0, 0, 0],
               [6, 32, 128, 255, STROBE, PSTROBE, SOS, 0]],
     MEM = MEM_LAST \<rparr>"

text \<open>
  The table of the A17DD-L \<^verbatim>\<open>main.c\<close> is declared \<^verbatim>\<open>sbyte\<close>; \<^verbatim>\<open>pgm_read_byte\<close>
  returns the stored byte, so \<open>-3\<close> is read as \<open>253\<close> and \<open>-127\<close> as \<open>129\<close>.
\<close>

definition a17_config :: config where
  "a17_config = \<lparr> MODES_COUNT = 8, GROUPS_COUNT = 2,
     groups = [[- 3, - 127, 64, 127, 0, 0, 0, 0],
               [- 3, - 127, 64, 127, STROBE_a17, PSTROBE_a17, SOS_a17, 0]],
     MEM = MEM_LAST \<rparr>"

text \<open>
  A configuration is well formed when the counts are within the documented maximum of 16
  and the table has \<^verbatim>\<open>GROUPS_COUNT\<close> rows of \<^verbatim>\<open>MODES_COUNT\<close> slots.
\<close>

definition config_ok :: "config \<Rightarrow> bool" where
  "config_ok cfg \<longleftrightarrow>
     0 < MODES_COUNT cfg \<and> MODES_COUNT cfg \<le> 16 \<and>
     0 < GROUPS_COUNT cfg \<and> GROUPS_COUNT cfg \<le> 16 \<and>
     length (groups cfg) = GROUPS_COUNT cfg \<and>
     list_all (\<lambda>row. length row = MODES_COUNT cfg) (groups cfg)"

text \<open>\<^verbatim>\<open>pgm_read_byte(&groups[g][m])\<close>.\<close>

definition pgm_read_byte :: "config \<Rightarrow> byte \<Rightarrow> byte \<Rightarrow> byte" where
  "pgm_read_byte cfg g m = groups cfg ! unat g ! unat m"

text \<open>
  The effective length of a group: the index of its first zero slot, or the table width
  when no slot is zero.
\<close>

definition effective_length :: "config \<Rightarrow> byte \<Rightarrow> nat" where
  "effective_length cfg g = length (takeWhile (\<lambda>v. v \<noteq> 0) (groups cfg ! unat g))"

section \<open>Packing and unpacking the log record\<close>

text \<open>
  v2.0 (both boards): \<^verbatim>\<open>decodeGroup\<close> is \<^verbatim>\<open>(data >> 4) % GROUPS_COUNT\<close> and
  \<^verbatim>\<open>decodeMode\<close> is \<^verbatim>\<open>(data & 0xf) % MODES_COUNT\<close>; the operands are promoted to
  \<^verbatim>\<open>int\<close>, so the remainder is taken on the unsigned value.
\<close>

definition decodeGroup :: "config \<Rightarrow> byte \<Rightarrow> byte" where
  "decodeGroup cfg data = of_nat (unat (drop_bit 4 data) mod GROUPS_COUNT cfg)"

definition decodeMode :: "config \<Rightarrow> byte \<Rightarrow> byte" where
  "decodeMode cfg data = of_nat (unat (data AND 0xf) mod MODES_COUNT cfg)"

text \<open>The second byte written by \<^verbatim>\<open>eepSave\<close>: \<^verbatim>\<open>g << 4 | m\<close>.\<close>

definition packGroupMode :: "byte \<Rightarrow> byte \<Rightarrow> byte" where
  "packGroupMode g m = push_bit 4 g OR m"

text \<open>
  v1.0 (\<^verbatim>\<open>quasar.c\<close>): \<^verbatim>\<open>decodeGroup\<close> is \<^verbatim>\<open>(data & 0x78) >> 3\<close>,
  \<^verbatim>\<open>decodeMode\<close> is \<^verbatim>\<open>data & 0x7\<close>, \<^verbatim>\<open>codeGroupAndMode(a, b)\<close> is
  \<^verbatim>\<open>a << 3 | b\<close>. \<^verbatim>\<open>getmode\<close> then resets an index that is not below its count
  to 0; the two functions below are the decode step followed by that reset.
\<close>

definition decodeGroup_v1 :: "byte \<Rightarrow> byte" where
  "decodeGroup_v1 data = drop_bit 3 (data AND 0x78)"

definition decodeMode_v1 :: "byte \<Rightarrow> byte" where
  "decodeMode_v1 data = data AND 0x7"

definition codeGroupAndMode :: "byte \<Rightarrow> byte \<Rightarrow> byte" where
  "codeGroupAndMode a b = push_bit 3 a OR b"

text \<open>
  The byte \<^verbatim>\<open>getmode\<close> writes is \<^verbatim>\<open>codeGroupAndMode(group, mode) | 0x80\<close> (short-on
  marker); the lock-in writes \<^verbatim>\<open>codeGroupAndMode(group, mode)\<close>. The marker is read
  back as \<^verbatim>\<open>groupModeData & 0x80\<close>.
\<close>

definition getmode_group_v1 :: "config \<Rightarrow> byte \<Rightarrow> byte" where
  "getmode_group_v1 cfg groupModeData =
     (let g = decodeGroup_v1 groupModeData
      in if unat g \<ge> GROUPS_COUNT cfg then 0 else g)"

definition getmode_mode_v1 :: "config \<Rightarrow> byte \<Rightarrow> byte" where
  "getmode_mode_v1 cfg groupModeData =
     (let m = decodeMode_v1 groupModeData
      in if unat m \<ge> MODES_COUNT cfg then 0 else m)"

section \<open>Next mode\<close>

text \<open>
  v2.0: \<^verbatim>\<open>nextMode = (mode + 1) % MODES_COUNT\<close>, reset to 0 when the table slot is 0.
\<close>

definition getNextMode :: "config \<Rightarrow> byte \<Rightarrow> byte \<Rightarrow> byte" where
  "getNextMode cfg g m =
     (let nextMode = (of_nat ((unat m + 1) mod MODES_COUNT cfg) :: byte)
      in if pgm_read_byte cfg g nextMode = 0 then 0 else nextMode)"

text \<open>
  v1.0: \<^verbatim>\<open>nextMode = mode + 1\<close> (a byte), reset to 0 when it is not below
  \<^verbatim>\<open>MODES_COUNT\<close> or the table slot is 0; the table is read only when the index is in
  range.
\<close>

definition getNextMode_v1 :: "config \<Rightarrow> byte \<Rightarrow> byte \<Rightarrow> byte" where
  "getNextMode_v1 cfg g m =
     (let nextMode = m + 1
      in if unat nextMode \<ge> MODES_COUNT cfg then 0
         else if pgm_read_byte cfg g nextMode = 0 then 0 else nextMode)"

section \<open>The EEPROM log of v2.0\<close>

text \<open>
  The EEPROM is a map from cell addresses to bytes. The sources drive it through the
  registers \<^verbatim>\<open>EEARL\<close>, \<^verbatim>\<open>EEDR\<close> and \<^verbatim>\<open>EECR\<close>: \<^verbatim>\<open>EECR = 32 + 4 + 2\<close> is a
  write without erase, which can only clear bits of the cell (an erased cell, \<open>0xff\<close>,
  takes the written value), \<^verbatim>\<open>EECR = 16 + 4 + 2\<close> erases the cell to \<open>0xff\<close>, and
  \<^verbatim>\<open>EECR = 1\<close> reads it. Each operation is followed (or preceded) by the busy-wait
  \<^verbatim>\<open>while (EECR & 2)\<close>, so the operations take effect one after the other.
\<close>

type_synonym eeprom = "nat \<Rightarrow> byte"

definition erased :: eeprom where
  "erased = (\<lambda>addr. 0xff)"

definition eep_write_only :: "nat \<Rightarrow> byte \<Rightarrow> eeprom \<Rightarrow> eeprom" where
  "eep_write_only addr data e = e(addr := e addr AND data)"

definition eep_erase_only :: "nat \<Rightarrow> eeprom \<Rightarrow> eeprom" where
  "eep_erase_only addr e = e(addr := 0xff)"

definition eepReadByte :: "eeprom \<Rightarrow> nat \<Rightarrow> byte" where
  "eepReadByte e addr = e addr"

text \<open>
  The global variables of the v2.0 sources, the EEPROM, and the list of the addresses that
  were read through \<^verbatim>\<open>eepReadByte\<close>. \<^verbatim>\<open>ticks\<close> exists in the Nanjg source only.
  \<^verbatim>\<open>cli()\<close> and \<^verbatim>\<open>sei()\<close> are not modelled: the interrupt handler is a function
  that is run between the steps of the main program, never inside \<^verbatim>\<open>eepSave\<close>.
\<close>

record fw_state =
  shortClicks :: byte
  group_no :: byte
  mode_no :: byte
  ticks :: byte
  eepos :: byte
  eeprom :: eeprom
  eep_reads :: "nat list"

text \<open>The state after power-on: the globals are zero, the EEPROM is what it was.\<close>

definition power_on :: "eeprom \<Rightarrow> fw_state" where
  "power_on e = \<lparr> shortClicks = 0, group_no = 0, mode_no = 0, ticks = 0, eepos = 0,
     eeprom = e, eep_reads = [] \<rparr>"

text \<open>
  \<^verbatim>\<open>eepSave(c, g, m)\<close>: the position moves to \<^verbatim>\<open>(eepos + 2) & 31\<close>; then, in this
  order, \<open>c\<close> is written at the new position, the cell at the old position is erased,
  \<^verbatim>\<open>g << 4 | m\<close> is written at the new position plus one, and the cell at the old
  position plus one is erased.
\<close>

definition eepSave :: "byte \<Rightarrow> byte \<Rightarrow> byte \<Rightarrow> fw_state \<Rightarrow> fw_state" where
  "eepSave c g m s =
     (let oldpos = eepos s;
          newpos = (eepos s + 2) AND 31;
          e1 = eep_write_only (unat newpos) c (eeprom s);
          e2 = eep_erase_only (unat oldpos) e1;
          e3 = eep_write_only (unat newpos + 1) (packGroupMode g m) e2;
          e4 = eep_erase_only (unat oldpos + 1) e3
      in s\<lparr> eepos := newpos, eeprom := e4 \<rparr>)"

text \<open>
  The content of the EEPROM when power is lost after the first \<open>k\<close> of the four EEPROM
  operations of \<^verbatim>\<open>eepSave\<close> (all four for \<open>k \<ge> 4\<close>).
\<close>

definition eepSave_cut :: "nat \<Rightarrow> byte \<Rightarrow> byte \<Rightarrow> byte \<Rightarrow> fw_state \<Rightarrow> eeprom" where
  "eepSave_cut k c g m s =
     (let oldpos = eepos s;
          newpos = (eepos s + 2) AND 31;
          e1 = eep_write_only (unat newpos) c (eeprom s);
          e2 = eep_erase_only (unat oldpos) e1;
          e3 = eep_write_only (unat newpos + 1) (packGroupMode g m) e2;
          e4 = eep_erase_only (unat oldpos + 1) e3
      in if k = 0 then eeprom s else if k = 1 then e1 else if k = 2 then e2
         else if k = 3 then e3 else e4)"

text \<open>A sequence of appends, one \<open>(c, g, m)\<close> triple per call of \<^verbatim>\<open>eepSave\<close>.\<close>

fun eepSave_all :: "(byte \<times> byte \<times> byte) list \<Rightarrow> fw_state \<Rightarrow> fw_state" where
  "eepSave_all [] s = s"
| "eepSave_all ((c, g, m) # rs) s = eepSave_all rs (eepSave c g m s)"

text \<open>The two cells of the slot at address \<open>p\<close> hold the bytes \<open>c\<close> and \<open>gm\<close>.\<close>

definition holds_record :: "eeprom \<Rightarrow> nat \<Rightarrow> byte \<Rightarrow> byte \<Rightarrow> bool" where
  "holds_record e p c gm \<longleftrightarrow> e p = c \<and> e (p + 1) = gm"

text \<open>All cells other than the two of the slot at address \<open>p\<close> are erased.\<close>

definition others_erased :: "eeprom \<Rightarrow> nat \<Rightarrow> bool" where
  "others_erased e p \<longleftrightarrow> (\<forall>a. a \<noteq> p \<and> a \<noteq> p + 1 \<longrightarrow> e a = 0xff)"

text \<open>
  The scan of \<^verbatim>\<open>eepLoad\<close>:
  \<^verbatim>\<open>while (((clicksData = eepReadByte(eepos)) == 0xff) && (eepos < 30)) eepos++;\<close>
  It returns the final position, the last byte read and the extended list of addresses
  read.
\<close>

function eepLoad_scan :: "eeprom \<Rightarrow> byte \<Rightarrow> nat list \<Rightarrow> byte \<times> byte \<times> nat list" where
  "eepLoad_scan e pos rd =
     (let clicksData = eepReadByte e (unat pos);
          rd' = rd @ [unat pos]
      in if clicksData = 0xff \<and> pos < 30 then eepLoad_scan e (pos + 1) rd'
         else (pos, clicksData, rd'))"
  by pat_completeness auto
termination
proof (relation "measure (\<lambda>(e, pos, rd). 30 - unat pos)")
  show "wf (measure (\<lambda>(e, pos, rd). 30 - unat pos))" by simp
next
  fix e :: eeprom and pos :: byte and rd :: "nat list" and x xa
  assume "x = eepReadByte e (unat pos)" "xa = rd @ [unat pos]" "x = 0xff \<and> pos < 30"
  then have p: "unat pos < 30" by (simp add: word_less_nat_alt)
  then have "unat (pos + 1) = unat pos + 1" by (simp add: unat_word_ariths)
  with p show "((e, pos + 1, xa), (e, pos, rd)) \<in> measure (\<lambda>(e, pos, rd). 30 - unat pos)"
    by simp
qed

declare eepLoad_scan.simps [simp del]

text \<open>
  \<^verbatim>\<open>eepLoad\<close> of the Nanjg source. The short-on marker is bit 7 of the first byte.
\<close>

definition eepLoad_nanjg :: "config \<Rightarrow> fw_state \<Rightarrow> fw_state" where
  "eepLoad_nanjg cfg s =
     (case eepLoad_scan (eeprom s) (eepos s) (eep_reads s) of (pos, clicksData, rd) \<Rightarrow>
        let groupMode = eepReadByte (eeprom s) (unat pos + 1);
            s1 = s\<lparr> eepos := pos, eep_reads := rd @ [unat pos + 1] \<rparr>;
            s2 = (if clicksData \<noteq> 0xff then
                    let s' = s1\<lparr> shortClicks := clicksData AND 0x7f,
                                 group_no := decodeGroup cfg groupMode,
                                 mode_no := decodeMode cfg groupMode \<rparr>
                    in if clicksData AND 0x80 \<noteq> 0
                       then s'\<lparr> mode_no := getNextMode cfg (group_no s') (mode_no s'),
                                shortClicks := shortClicks s' + 1 \<rparr>
                       else s'
                  else s1)
        in eepSave (shortClicks s2 OR 0x80) (group_no s2) (mode_no s2) s2)"

text \<open>
  \<^verbatim>\<open>eepLoad\<close> of the A17DD-L source. \<^verbatim>\<open>getADCResult()\<close> is called twice and the
  second result \<open>cap\<close>, the voltage left on the off-time capacitor, is compared with
  \<^verbatim>\<open>CAP_THRESHOLD\<close>. The sample is an input of the model.
\<close>

definition eepLoad_a17 :: "config \<Rightarrow> byte \<Rightarrow> fw_state \<Rightarrow> fw_state" where
  "eepLoad_a17 cfg cap s =
     (case eepLoad_scan (eeprom s) (eepos s) (eep_reads s) of (pos, clicksData, rd) \<Rightarrow>
        let groupMode = eepReadByte (eeprom s) (unat pos + 1);
            s1 = s\<lparr> eepos := pos, eep_reads := rd @ [unat pos + 1] \<rparr>;
            s2 = (if clicksData \<noteq> 0xff then
                    let s' = s1\<lparr> shortClicks := clicksData,
                                 group_no := decodeGroup cfg groupMode,
                                 mode_no := decodeMode cfg groupMode \<rparr>
                    in if cap > CAP_THRESHOLD
                       then s'\<lparr> mode_no := getNextMode cfg (group_no s') (mode_no s'),
                                shortClicks := shortClicks s' + 1 \<rparr>
                       else (case MEM cfg of
                               MEM_NEXT \<Rightarrow>
                                 s'\<lparr> mode_no := getNextMode cfg (group_no s') (mode_no s'),
                                     shortClicks := 0 \<rparr>
                             | MEM_FIRST \<Rightarrow> s'\<lparr> mode_no := 0, shortClicks := 0 \<rparr>
                             | MEM_LAST \<Rightarrow> s'\<lparr> shortClicks := 0 \<rparr>)
                  else s1)
        in eepSave (shortClicks s2) (group_no s2) (mode_no s2) s2)"

text \<open>
  The watchdog interrupt of the Nanjg source: it counts ticks up to 255 and, at tick
  \<^verbatim>\<open>LOCKTIME\<close>, writes the record chosen by the memory mode, without marker and with
  tally 0. (The handler of the A17DD-L source is empty.)
\<close>

definition wdt_isr_nanjg :: "config \<Rightarrow> fw_state \<Rightarrow> fw_state" where
  "wdt_isr_nanjg cfg s =
     (if ticks s < 255 then
        let s1 = s\<lparr> ticks := ticks s + 1 \<rparr>
        in if ticks s1 = LOCKTIME then
             (case MEM cfg of
                MEM_NEXT \<Rightarrow> eepSave 0 (group_no s1) (getNextMode cfg (group_no s1) (mode_no s1)) s1
              | MEM_FIRST \<Rightarrow> eepSave 0 (group_no s1) 0 s1
              | MEM_LAST \<Rightarrow> eepSave 0 (group_no s1) (mode_no s1) s1)
           else s1
      else s)"

text \<open>
  \<^verbatim>\<open>doSleep(count)\<close> executes \<^verbatim>\<open>SLEEP\<close> \<open>count\<close> times; each one ends with the
  watchdog interrupt. \<^verbatim>\<open>doImpulses(count, onTime, offTime)\<close> sleeps \<open>onTime\<close> and
  \<open>offTime\<close> ticks per impulse.
\<close>

definition doSleep_nanjg :: "config \<Rightarrow> byte \<Rightarrow> fw_state \<Rightarrow> fw_state" where
  "doSleep_nanjg cfg count s = (wdt_isr_nanjg cfg ^^ unat count) s"

definition doImpulses_nanjg :: "config \<Rightarrow> byte \<Rightarrow> byte \<Rightarrow> byte \<Rightarrow> fw_state \<Rightarrow> fw_state" where
  "doImpulses_nanjg cfg count onTime offTime s =
     ((\<lambda>s. doSleep_nanjg cfg offTime (doSleep_nanjg cfg onTime s)) ^^ unat count) s"

text \<open>The successor of a mode as the specification words it: wrap at the effective length.\<close>

definition spec_successor :: "config \<Rightarrow> byte \<Rightarrow> byte \<Rightarrow> byte" where
  "spec_successor cfg g m = (if unat m + 1 < effective_length cfg g then m + 1 else 0)"

text \<open>Every zero slot of the table is a trailing one.\<close>

definition zeros_trailing :: "config \<Rightarrow> bool" where
  "zeros_trailing cfg \<longleftrightarrow>
     list_all (\<lambda>row. list_all (\<lambda>v. v = 0) (dropWhile (\<lambda>v. v \<noteq> 0) row)) (groups cfg)"

section \<open>The main programs of v2.0 up to the display loop\<close>

text \<open>The battery level shown by the battery check: 1 to 4 blinks.\<close>

definition blinksCount :: "byte \<Rightarrow> byte" where
  "blinksCount voltage =
     (if voltage \<ge> 170 then 4 else if voltage \<ge> 160 then 3
      else if voltage \<ge> 145 then 2 else 1)"

text \<open>
  The branch of \<^verbatim>\<open>switch (pmode)\<close> in which \<^verbatim>\<open>main\<close> stays forever: one of the
  three blinking modes, or the default branch that drives the output with the value.
\<close>

datatype display = Strobe | PoliceStrobe | Sos | Pwm byte

definition switch_nanjg :: "byte \<Rightarrow> display" where
  "switch_nanjg pmode =
     (if pmode = STROBE then Strobe else if pmode = PSTROBE then PoliceStrobe
      else if pmode = SOS then Sos else Pwm pmode)"

definition switch_a17 :: "byte \<Rightarrow> display" where
  "switch_a17 pmode =
     (if pmode = STROBE_a17 then Strobe else if pmode = PSTROBE_a17 then PoliceStrobe
      else if pmode = SOS_a17 then Sos else Pwm pmode)"

text \<open>
  What \<^verbatim>\<open>main\<close> has done when it enters the switch: whether the battery level was
  shown (and with how many blinks), whether the group-change blink ran, the branch of the
  switch, and the state of the variables and the EEPROM.
\<close>

record main_result =
  battcheck_shown :: "byte option"
  group_blink :: bool
  display_mode :: display
  final_state :: fw_state

text \<open>
  \<^verbatim>\<open>main\<close> of the A17DD-L source. \<open>cap\<close> is the capacitor sample of \<^verbatim>\<open>eepLoad\<close>,
  \<open>voltage\<close> the battery sample of the battery check. The watchdog handler is empty,
  so sleeping changes nothing in the state. The first function is the body of
  \<^verbatim>\<open>if (shortClicks >= BATTCHECK)\<close> (the blinks, then \<^verbatim>\<open>eepSave(0, group, mode)\<close>), the
  second the body of \<^verbatim>\<open>if (mode == GROUP_CHANGE_MODE)\<close>.
\<close>

definition battcheck_a17 :: "fw_state \<Rightarrow> fw_state" where
  "battcheck_a17 s = eepSave 0 (group_no s) (mode_no s) s"

definition groupchange_a17 :: "config \<Rightarrow> fw_state \<Rightarrow> fw_state" where
  "groupchange_a17 cfg s =
     (let nextGroup = (of_nat ((unat (group_no s) + 1) mod GROUPS_COUNT cfg) :: byte);
          sa = eepSave 0 nextGroup GROUP_CHANGE_MODE s
      in eepSave 0 (group_no sa) GROUP_CHANGE_MODE sa)"

definition main_a17 :: "config \<Rightarrow> eeprom \<Rightarrow> byte \<Rightarrow> byte \<Rightarrow> main_result" where
  "main_a17 cfg e cap voltage =
     (let s1 = eepLoad_a17 cfg cap (power_on e);
          pmode = pgm_read_byte cfg (group_no s1) (mode_no s1);
          battcheck = (shortClicks s1 \<ge> BATTCHECK);
          s2 = (if battcheck then battcheck_a17 s1 else s1);
          blink = (mode_no s2 = GROUP_CHANGE_MODE);
          s3 = (if blink then groupchange_a17 cfg s2 else s2)
      in \<lparr> battcheck_shown = (if battcheck then Some (blinksCount voltage) else None),
           group_blink = blink,
           display_mode = switch_a17 pmode,
           final_state = s3 \<rparr>)"

text \<open>
  \<^verbatim>\<open>main\<close> of the Nanjg source. Every \<^verbatim>\<open>doSleep\<close> and \<^verbatim>\<open>doImpulses\<close> runs the
  watchdog handler once per tick, so the lock-in write of the handler happens inside the
  first sleep that reaches tick \<^verbatim>\<open>LOCKTIME\<close>. The body of the battery check sleeps 50
  ticks, blinks, sets \<^verbatim>\<open>shortClicks = 0\<close> and sleeps 50 ticks; it does not call
  \<^verbatim>\<open>eepSave\<close>.
\<close>

definition battcheck_nanjg :: "config \<Rightarrow> byte \<Rightarrow> fw_state \<Rightarrow> fw_state" where
  "battcheck_nanjg cfg voltage s =
     (let sa = doSleep_nanjg cfg 50 s;
          sb = doImpulses_nanjg cfg (blinksCount voltage) 10 20 sa;
          sc = sb\<lparr> shortClicks := 0 \<rparr>
      in doSleep_nanjg cfg 50 sc)"

definition groupchange_nanjg :: "config \<Rightarrow> fw_state \<Rightarrow> fw_state" where
  "groupchange_nanjg cfg s =
     (let sa = doSleep_nanjg cfg (LOCKTIME * 2) s;
          nextGroup = (of_nat ((unat (group_no sa) + 1) mod GROUPS_COUNT cfg) :: byte);
          sb = eepSave 0 nextGroup 0 sa;
          sc = doSleep_nanjg cfg (LOCKTIME div 10) sb;
          sd = doSleep_nanjg cfg LOCKTIME sc
      in (case MEM cfg of
            MEM_NEXT \<Rightarrow> eepSave 0 (group_no sd) (getNextMode cfg (group_no sd) (mode_no sd)) sd
          | MEM_FIRST \<Rightarrow> eepSave 0 (group_no sd) GROUP_CHANGE_MODE sd
          | MEM_LAST \<Rightarrow> eepSave 0 (group_no sd) GROUP_CHANGE_MODE sd))"

definition main_nanjg :: "config \<Rightarrow> eeprom \<Rightarrow> byte \<Rightarrow> main_result" where
  "main_nanjg cfg e voltage =
     (let s1 = eepLoad_nanjg cfg (power_on e);
          pmode = pgm_read_byte cfg (group_no s1) (mode_no s1);
          battcheck = (shortClicks s1 \<ge> BATTCHECK);
          s2 = (if battcheck then battcheck_nanjg cfg voltage s1 else s1);
          blink = (mode_no s2 = GROUP_CHANGE_MODE);
          s3 = (if blink then groupchange_nanjg cfg s2 else s2)
      in \<lparr> battcheck_shown = (if battcheck then Some (blinksCount voltage) else None),
           group_blink = blink,
           display_mode = switch_nanjg pmode,
           final_state = s3 \<rparr>)"

section \<open>The display loop: low-battery step-down and turbo timeout\<close>

text \<open>
  The battery check of the loop (Nanjg and A17DD-L \<^verbatim>\<open>main\<close>) and of the watchdog
  handler of v1.0, on the pair of the output value and the debounce counter:
  \<^verbatim>\<open>if (voltage < BATTMON) { if (++lowbattCounter > 8) { pmode = (pmode >> 1) + 3;
  lowbattCounter = 0; } } else lowbattCounter = 0;\<close>
\<close>

definition battmon_step :: "byte \<Rightarrow> byte \<times> byte \<Rightarrow> byte \<times> byte" where
  "battmon_step voltage pc =
     (case pc of (pmode, lowbattCounter) \<Rightarrow>
        if voltage < BATTMON then
          (let cnt = lowbattCounter + 1
           in if cnt > 8 then (drop_bit 1 pmode + 3, 0) else (pmode, cnt))
        else (pmode, 0))"

text \<open>The loop of the Nanjg source over a list of battery samples, one per iteration.\<close>

fun loop_nanjg :: "byte list \<Rightarrow> byte \<times> byte \<Rightarrow> byte \<times> byte" where
  "loop_nanjg [] pc = pc"
| "loop_nanjg (v # vs) pc = loop_nanjg vs (battmon_step v pc)"

text \<open>
  One iteration of the default branch of the A17DD-L source: the battery check, then
  \<^verbatim>\<open>if (turboTicks < TURBO_TIMEOUT) turboTicks++; else if (pmode == 127) pmode = pmode >> 1;\<close>
\<close>

record loop_state =
  pmode :: byte
  lowbattCounter :: byte
  turboTicks :: byte

definition turbo_step :: "loop_state \<Rightarrow> loop_state" where
  "turbo_step s =
     (if turboTicks s < TURBO_TIMEOUT then s\<lparr> turboTicks := turboTicks s + 1 \<rparr>
      else if pmode s = 127 then s\<lparr> pmode := drop_bit 1 (pmode s) \<rparr> else s)"

definition loop_body_a17 :: "byte \<Rightarrow> loop_state \<Rightarrow> loop_state" where
  "loop_body_a17 voltage s =
     (case battmon_step voltage (pmode s, lowbattCounter s) of (p, c) \<Rightarrow>
        turbo_step (s\<lparr> pmode := p, lowbattCounter := c \<rparr>))"

fun loop_a17 :: "byte list \<Rightarrow> loop_state \<Rightarrow> loop_state" where
  "loop_a17 [] s = s"
| "loop_a17 (v # vs) s = loop_a17 vs (loop_body_a17 v s)"

text \<open>
  The turbo step-down happens in an iteration when, after the battery check, the timer
  has run out and the value is the maximum code 127.
\<close>

definition turbo_fires :: "byte \<Rightarrow> loop_state \<Rightarrow> bool" where
  "turbo_fires voltage s \<longleftrightarrow>
     \<not> turboTicks s < TURBO_TIMEOUT \<and>
     fst (battmon_step voltage (pmode s, lowbattCounter s)) = 127"

text \<open>The number of iterations of a run in which the turbo step-down happens.\<close>

fun turbo_count :: "byte list \<Rightarrow> loop_state \<Rightarrow> nat" where
  "turbo_count [] s = 0"
| "turbo_count (v # vs) s =
     (if turbo_fires v s then 1 else 0) + turbo_count vs (loop_body_a17 v s)"

text \<open>
  \<^verbatim>\<open>setPWM\<close> of the A17DD-L source takes the value as \<^verbatim>\<open>sbyte\<close>: a positive value
  drives the FET channel, a negative one the AMC channel. The result is the pair
  \<open>(FET_PWM, AMC_PWM)\<close>.
\<close>

definition setPWM :: "byte \<Rightarrow> byte \<times> byte" where
  "setPWM v =
     (if 0 < sint v then (push_bit 1 v + 1, 0)
      else if sint v < 0 then (0, push_bit 1 (- v) + 1)
      else (0, 0))"

text \<open>
  The output values the display loop of the Nanjg source and of v1.0 can hold: the value
  of a selectable mode (a slot below the effective length of its group) that is not a
  blinking mode, and every value the step-downs make of such a value.
\<close>

inductive reachable_nanjg :: "config \<Rightarrow> byte \<Rightarrow> bool" for cfg where
  start: "unat g < GROUPS_COUNT cfg \<Longrightarrow> unat m < effective_length cfg g \<Longrightarrow>
          switch_nanjg (pgm_read_byte cfg g m) = Pwm v \<Longrightarrow> reachable_nanjg cfg v"
| lowbatt: "reachable_nanjg cfg v \<Longrightarrow> reachable_nanjg cfg (drop_bit 1 v + 3)"

section \<open>The one-byte log of v1.0\<close>

text \<open>
  \<^verbatim>\<open>getmode\<close> copies the 32 EEPROM cells into the array \<^verbatim>\<open>byte eep[32]\<close> and scans
  the array. Reading the array at an index that is not below 32 is an error of the
  model.
\<close>

datatype error = OutOfBounds nat

record v1_state =
  group_v1 :: byte
  mode_v1 :: byte
  eep :: "byte list"
  eepos_v1 :: byte
  battcheckCounter :: "16 word"
  eeprom_v1 :: eeprom

definition power_on_v1 :: "eeprom \<Rightarrow> 16 word \<Rightarrow> v1_state" where
  "power_on_v1 e noinit = \<lparr> group_v1 = 0, mode_v1 = 0, eep = replicate 32 0, eepos_v1 = 0,
     battcheckCounter = noinit, eeprom_v1 = e \<rparr>"

definition array_read :: "byte list \<Rightarrow> nat \<Rightarrow> error + byte" where
  "array_read a i = (if i < length a then Inr (a ! i) else Inl (OutOfBounds i))"

text \<open>\<^verbatim>\<open>while ((eep[eepos] == 0xff) && (eepos < 32)) eepos++;\<close>\<close>

function getmode_scan :: "byte list \<Rightarrow> byte \<Rightarrow> error + byte" where
  "getmode_scan a pos =
     (case array_read a (unat pos) of
        Inl err \<Rightarrow> Inl err
      | Inr b \<Rightarrow> if b = 0xff \<and> pos < 32 then getmode_scan a (pos + 1) else Inr pos)"
  by pat_completeness auto
termination
proof (relation "measure (\<lambda>(a, pos). 32 - unat pos)")
  show "wf (measure (\<lambda>(a, pos). 32 - unat pos))" by simp
next
  fix a :: "byte list" and pos :: byte and b
  assume "b = 0xff \<and> pos < 32"
  then have p: "unat pos < 32" by (simp add: word_less_nat_alt)
  then have "unat (pos + 1) = unat pos + 1" by (simp add: unat_word_ariths)
  with p show "((a, pos + 1), (a, pos)) \<in> measure (\<lambda>(a, pos). 32 - unat pos)"
    by simp
qed

declare getmode_scan.simps [simp del]

text \<open>
  \<^verbatim>\<open>eepSave(data)\<close> of v1.0: the position moves to \<^verbatim>\<open>(eepos + 1) & 31\<close>, the byte
  is written there, then the cell at the old position is erased.
\<close>

definition eepSave_v1 :: "byte \<Rightarrow> v1_state \<Rightarrow> v1_state" where
  "eepSave_v1 data s =
     (let oldpos = eepos_v1 s;
          newpos = (eepos_v1 s + 1) AND 31;
          e1 = eep_write_only (unat newpos) data (eeprom_v1 s);
          e2 = eep_erase_only (unat oldpos) e1
      in s\<lparr> eepos_v1 := newpos, eeprom_v1 := e2 \<rparr>)"

text \<open>
  \<^verbatim>\<open>getmode\<close>. The counter of fast clicks \<^verbatim>\<open>battcheckCounter\<close> lives in RAM that is
  not initialised at power-on; its value at power-on is an input of the model.
\<close>

definition getmode :: "config \<Rightarrow> v1_state \<Rightarrow> error + v1_state" where
  "getmode cfg s =
     (let a = map (eeprom_v1 s) [0..<32]
      in case getmode_scan a (eepos_v1 s) of
           Inl err \<Rightarrow> Inl err
         | Inr pos \<Rightarrow>
             (case array_read a (unat pos) of
                Inl err \<Rightarrow> Inl err
              | Inr groupModeData \<Rightarrow>
                  let s1 = s\<lparr> eep := a, eepos_v1 := pos,
                              group_v1 := getmode_group_v1 cfg groupModeData,
                              mode_v1 := getmode_mode_v1 cfg groupModeData \<rparr>;
                      s2 = (if groupModeData AND 0x80 \<noteq> 0 then
                              s1\<lparr> mode_v1 := getNextMode_v1 cfg (group_v1 s1) (mode_v1 s1),
                                  battcheckCounter :=
                                    (if battcheckCounter s1 \<noteq> 0xaaaa
                                     then (NOT (battcheckCounter s1) AND 1)
                                            OR push_bit 1 (battcheckCounter s1)
                                     else battcheckCounter s1) \<rparr>
                            else s1)
                  in Inr (eepSave_v1 (codeGroupAndMode (group_v1 s2) (mode_v1 s2) OR 0x80) s2)))"

section \<open>Bit-level facts about bytes\<close>

lemma byte_small_bit:
  assumes "unat (x::byte) < 2 ^ k" and "bit x n"
  shows "n < k"
proof -
  have "take_bit k (unat x) = unat x"
    using assms(1) by (simp add: take_bit_nat_eq_self)
  moreover have "bit (unat x) n"
    using assms(2) by (simp add: bit_unsigned_iff)
  ultimately have "bit (take_bit k (unat x)) n" by simp
  then show ?thesis by (simp add: bit_take_bit_iff)
qed

lemma byte_lt16_bit: "unat (x::byte) < 16 \<Longrightarrow> bit x n \<Longrightarrow> n < 4"
  using byte_small_bit[of x 4 n] by simp

lemma byte_lt8_bit: "unat (x::byte) < 8 \<Longrightarrow> bit x n \<Longrightarrow> n < 3"
  using byte_small_bit[of x 3 n] by simp

lemma byte_lt128_bit: "unat (x::byte) < 128 \<Longrightarrow> bit x n \<Longrightarrow> n < 7"
  using byte_small_bit[of x 7 n] by simp

lemma bit_byte_128: "bit (128::byte) n \<longleftrightarrow> n = 7"
proof -
  have "bit ((2::byte) ^ 7) n \<longleftrightarrow> n = 7"
    by (simp only: bit_exp_iff) auto
  then show ?thesis by simp
qed

lemma unat_of_nat_mod_small:
  assumes "0 < n" "n \<le> 16"
  shows "unat (of_nat (x mod n) :: byte) = x mod n"
proof -
  from assms have "x mod n < n" by simp
  with assms have "x mod n < 256" by linarith
  then show ?thesis by (simp add: unat_of_nat)
qed

subsection \<open>The two-byte record\<close>

lemma drop4_pack:
  "unat (g::byte) < 16 \<Longrightarrow> unat (m::byte) < 16 \<Longrightarrow> drop_bit 4 (packGroupMode g m) = g"
  unfolding packGroupMode_def
  by (rule bit_word_eqI) (auto simp add: bit_simps dest: byte_lt16_bit)

lemma and15_pack:
  assumes "unat (g::byte) < 16" "unat (m::byte) < 16"
  shows "packGroupMode g m AND 0xf = m"
proof -
  have "(push_bit 4 g OR m) AND mask 4 = m"
    using assms(2) by (intro bit_word_eqI) (auto simp add: bit_simps dest: byte_lt16_bit)
  then show ?thesis by (simp add: mask_eq_exp_minus_1 packGroupMode_def)
qed

lemma decodeGroup_pack:
  assumes "config_ok cfg" "unat g < GROUPS_COUNT cfg" "unat m < MODES_COUNT cfg"
  shows "decodeGroup cfg (packGroupMode g m) = g"
proof -
  from assms have "unat g < 16" "unat m < 16" by (auto simp: config_ok_def)
  then have "drop_bit 4 (packGroupMode g m) = g" by (rule drop4_pack)
  then show ?thesis using assms(2) by (simp add: decodeGroup_def)
qed

lemma decodeMode_pack:
  assumes "config_ok cfg" "unat g < GROUPS_COUNT cfg" "unat m < MODES_COUNT cfg"
  shows "decodeMode cfg (packGroupMode g m) = m"
proof -
  from assms have "unat g < 16" "unat m < 16" by (auto simp: config_ok_def)
  then have "packGroupMode g m AND 0xf = m" by (rule and15_pack)
  then show ?thesis using assms(3) by (simp add: decodeMode_def)
qed

lemma clicks_bits_gen:
  assumes "unat (t::byte) < 128" and h: "\<And>n. bit (h::byte) n \<longleftrightarrow> n = 7"
  shows "(t OR h) AND mask 7 = t" "t AND mask 7 = t" "(t OR h) AND h = h" "t AND h = 0"
  using assms(1)
  by (intro bit_word_eqI; auto simp add: bit_simps h dest: byte_lt128_bit)+

lemmas clicks_bits = clicks_bits_gen[where h = 128, OF _ bit_byte_128]

lemma tally_byte_bits:
  assumes "unat (t::byte) \<le> 127"
  shows "(t OR 0x80) AND 0x7f = t" "t AND 0x7f = t" "(t OR 0x80) AND 0x80 \<noteq> 0" "t AND 0x80 = 0"
    "t \<noteq> 0xff" "t \<noteq> 127 \<Longrightarrow> t OR 0x80 \<noteq> 0xff"
proof -
  from assms have t: "unat t < 128" by simp
  note b = clicks_bits[OF t]
  show "(t OR 0x80) AND 0x7f = t" "t AND 0x7f = t"
    using b(1,2) by (simp_all add: mask_eq_exp_minus_1)
  show "(t OR 0x80) AND 0x80 \<noteq> 0" using b(3) by simp
  show "t AND 0x80 = 0" using b(4) by simp
  show "t \<noteq> 0xff" using t by auto
  show "t OR 0x80 \<noteq> 0xff" if "t \<noteq> 127"
  proof
    assume "t OR 0x80 = 0xff"
    then have "(t OR 0x80) AND 0x7f = 0xff AND 0x7f" by simp
    then have "t = 127" using \<open>(t OR 0x80) AND 0x7f = t\<close> by simp
    with that show False by simp
  qed
qed

subsection \<open>The one-byte record\<close>

lemma v1_bits_gen:
  assumes "unat (g::byte) < 16" "unat (m::byte) < 8"
    and h: "\<And>n. bit (h::byte) n \<longleftrightarrow> n = 7"
  shows "drop_bit 3 ((push_bit 3 g OR m) AND push_bit 3 (mask 4)) = g"
    "drop_bit 3 ((push_bit 3 g OR m OR h) AND push_bit 3 (mask 4)) = g"
    "(push_bit 3 g OR m) AND mask 3 = m"
    "(push_bit 3 g OR m OR h) AND mask 3 = m"
    "(push_bit 3 g OR m) AND h = 0"
    "(push_bit 3 g OR m OR h) AND h = h"
  using assms(1,2)
  by (intro bit_word_eqI; auto simp add: bit_simps h dest: byte_lt16_bit byte_lt8_bit)+

lemmas v1_bits = v1_bits_gen[where h = 128, OF _ _ bit_byte_128]

lemma v1_byte_decodes:
  assumes "config_ok cfg" "MODES_COUNT cfg \<le> 8"
    and "unat g < GROUPS_COUNT cfg" "unat m < MODES_COUNT cfg"
  shows "getmode_group_v1 cfg (codeGroupAndMode g m) = g"
    and "getmode_mode_v1 cfg (codeGroupAndMode g m) = m"
    and "codeGroupAndMode g m AND 0x80 = 0"
    and "getmode_group_v1 cfg (codeGroupAndMode g m OR 0x80) = g"
    and "getmode_mode_v1 cfg (codeGroupAndMode g m OR 0x80) = m"
    and "(codeGroupAndMode g m OR 0x80) AND 0x80 \<noteq> 0"
    and "codeGroupAndMode g m \<noteq> 0xff"
proof -
  from assms have gm: "unat g < 16" "unat m < 8" by (auto simp: config_ok_def)
  note b = v1_bits[OF gm]
  have d: "decodeGroup_v1 (codeGroupAndMode g m) = g" "decodeMode_v1 (codeGroupAndMode g m) = m"
    "decodeGroup_v1 (codeGroupAndMode g m OR 0x80) = g"
    "decodeMode_v1 (codeGroupAndMode g m OR 0x80) = m"
    using b by (simp_all add: decodeGroup_v1_def decodeMode_v1_def codeGroupAndMode_def
        mask_eq_exp_minus_1 or.assoc)
  show "getmode_group_v1 cfg (codeGroupAndMode g m) = g"
    "getmode_mode_v1 cfg (codeGroupAndMode g m) = m"
    "getmode_group_v1 cfg (codeGroupAndMode g m OR 0x80) = g"
    "getmode_mode_v1 cfg (codeGroupAndMode g m OR 0x80) = m"
    using assms(3,4) by (simp_all add: getmode_group_v1_def getmode_mode_v1_def d)
  show z: "codeGroupAndMode g m AND 0x80 = 0"
    using b(5) by (simp add: codeGroupAndMode_def)
  show "(codeGroupAndMode g m OR 0x80) AND 0x80 \<noteq> 0"
    using b(6) by (simp add: codeGroupAndMode_def)
  show "codeGroupAndMode g m \<noteq> 0xff"
  proof
    assume "codeGroupAndMode g m = 0xff"
    then have "codeGroupAndMode g m AND 0x80 = 0xff AND 0x80" by simp
    with z show False by simp
  qed
qed

section \<open>Decoded indices stay inside the mode table\<close>

lemma table_row_length:
  assumes "config_ok cfg" "i < GROUPS_COUNT cfg"
  shows "length (groups cfg ! i) = MODES_COUNT cfg"
  using assms by (simp add: config_ok_def list_all_length)

lemma decodeGroup_unat:
  "config_ok cfg \<Longrightarrow> unat (decodeGroup cfg data) = unat (drop_bit 4 data) mod GROUPS_COUNT cfg"
  by (simp add: decodeGroup_def config_ok_def unat_of_nat_mod_small)

lemma decodeMode_unat:
  "config_ok cfg \<Longrightarrow> unat (decodeMode cfg data) = unat (data AND 0xf) mod MODES_COUNT cfg"
  by (simp add: decodeMode_def config_ok_def unat_of_nat_mod_small)

lemma decodeGroup_less: "config_ok cfg \<Longrightarrow> unat (decodeGroup cfg data) < GROUPS_COUNT cfg"
  by (simp add: decodeGroup_unat) (simp add: config_ok_def)

lemma decodeMode_less: "config_ok cfg \<Longrightarrow> unat (decodeMode cfg data) < MODES_COUNT cfg"
  by (simp add: decodeMode_unat) (simp add: config_ok_def)

lemma getNextMode_less: "config_ok cfg \<Longrightarrow> unat (getNextMode cfg g m) < MODES_COUNT cfg"
  by (simp add: getNextMode_def Let_def unat_of_nat_mod_small config_ok_def)

lemma getmode_group_v1_less:
  "config_ok cfg \<Longrightarrow> unat (getmode_group_v1 cfg data) < GROUPS_COUNT cfg"
  by (simp add: getmode_group_v1_def Let_def config_ok_def)

lemma getmode_mode_v1_less:
  "config_ok cfg \<Longrightarrow> unat (getmode_mode_v1 cfg data) < MODES_COUNT cfg"
  by (simp add: getmode_mode_v1_def Let_def config_ok_def)

lemma getNextMode_v1_less: "config_ok cfg \<Longrightarrow> unat (getNextMode_v1 cfg g m) < MODES_COUNT cfg"
  by (simp add: getNextMode_v1_def Let_def config_ok_def)

text \<open>
  Claim C7, as stated, fails on v1.0: \<^verbatim>\<open>getmode\<close> of \<^verbatim>\<open>quasar.c\<close> does not reduce
  the stored group field modulo \<^verbatim>\<open>GROUPS_COUNT\<close>; it resets a field that is out of
  range to 0. The stored byte \<open>0x18\<close> has group field 3; with two groups the result is
  0, not \<open>3 mod 2 = 1\<close>.
\<close>

theorem decode_v1_not_modulo:
  "getmode_group_v1 v1_config 0x18 \<noteq>
     of_nat (unat (decodeGroup_v1 0x18) mod GROUPS_COUNT v1_config)"
  by (simp add: getmode_group_v1_def decodeGroup_v1_def v1_config_def)

text \<open>
  Claim C7, amended. For every stored byte the decoded group index is below
  \<^verbatim>\<open>GROUPS_COUNT\<close> and the decoded mode index is below \<^verbatim>\<open>MODES_COUNT\<close>. In the
  v2.0 sources they are the stored fields reduced modulo the counts; in v1.0 they are the
  stored fields when these are in range and 0 otherwise. In both cases the indices, and
  the index computed by the next-mode function, lie inside the mode table.
\<close>

theorem decode_in_bounds:
  assumes "config_ok cfg"
  shows "unat (decodeGroup cfg data) = unat (drop_bit 4 data) mod GROUPS_COUNT cfg \<and>
         unat (decodeMode cfg data) = unat (data AND 0xf) mod MODES_COUNT cfg \<and>
         unat (decodeGroup cfg data) < GROUPS_COUNT cfg \<and>
         unat (decodeMode cfg data) < MODES_COUNT cfg \<and>
         unat (decodeGroup cfg data) < length (groups cfg) \<and>
         unat (decodeMode cfg data) < length (groups cfg ! unat (decodeGroup cfg data)) \<and>
         unat (getNextMode cfg (decodeGroup cfg data) (decodeMode cfg data))
           < length (groups cfg ! unat (decodeGroup cfg data)) \<and>
         getmode_group_v1 cfg data =
           (if unat (decodeGroup_v1 data) < GROUPS_COUNT cfg then decodeGroup_v1 data else 0) \<and>
         getmode_mode_v1 cfg data =
           (if unat (decodeMode_v1 data) < MODES_COUNT cfg then decodeMode_v1 data else 0) \<and>
         unat (getmode_group_v1 cfg data) < length (groups cfg) \<and>
         unat (getmode_mode_v1 cfg data) < length (groups cfg ! unat (getmode_group_v1 cfg data)) \<and>
         unat (getNextMode_v1 cfg (getmode_group_v1 cfg data) (getmode_mode_v1 cfg data))
           < length (groups cfg ! unat (getmode_group_v1 cfg data))"
proof -
  note g = decodeGroup_less[OF assms, of data] and g1 = getmode_group_v1_less[OF assms, of data]
  have len: "length (groups cfg) = GROUPS_COUNT cfg"
    using assms by (simp add: config_ok_def)
  have v1: "getmode_group_v1 cfg data =
           (if unat (decodeGroup_v1 data) < GROUPS_COUNT cfg then decodeGroup_v1 data else 0)"
    "getmode_mode_v1 cfg data =
           (if unat (decodeMode_v1 data) < MODES_COUNT cfg then decodeMode_v1 data else 0)"
    by (simp_all add: getmode_group_v1_def getmode_mode_v1_def Let_def)
  show ?thesis
    using g g1 v1 len decodeGroup_unat[OF assms, of data] decodeMode_unat[OF assms, of data]
      decodeMode_less[OF assms, of data] getNextMode_less[OF assms]
      getmode_mode_v1_less[OF assms, of data] getNextMode_v1_less[OF assms]
      table_row_length[OF assms g] table_row_length[OF assms g1]
    by simp
qed

theorem decode_in_bounds_witness:
  "config_ok nanjg_config \<and>
   unat (decodeGroup nanjg_config 0xff) < GROUPS_COUNT nanjg_config \<and>
   unat (decodeMode nanjg_config 0xff) < MODES_COUNT nanjg_config \<and>
   unat (getmode_group_v1 nanjg_config 0xff) < length (groups nanjg_config) \<and>
   unat (getmode_mode_v1 nanjg_config 0xff)
     < length (groups nanjg_config ! unat (getmode_group_v1 nanjg_config 0xff))"
proof -
  have h: "config_ok nanjg_config"
    by (simp add: config_ok_def nanjg_config_def)
  from decode_in_bounds[OF h, of "0xff"] h show ?thesis by blast
qed

section \<open>The append operation of the two-byte log\<close>

lemma byte_ff_and [simp]: "(0xff::byte) AND c = c" "c AND (0xff::byte) = c"
proof -
  have m: "(0xff::byte) = - 1" by simp
  show "(0xff::byte) AND c = c" "c AND (0xff::byte) = c" unfolding m by simp_all
qed

lemma and31_unat: "unat ((x::byte) AND 31) = unat x mod 32"
proof -
  have "(x AND 31) = x AND mask 5" by (simp add: mask_eq_exp_minus_1)
  also have "\<dots> = take_bit 5 x" by (simp add: take_bit_eq_mask)
  finally have "unat (x AND 31) = unat (take_bit 5 x)" by simp
  also have "\<dots> = take_bit 5 (unat x)" by (simp only: unsigned_take_bit_eq)
  also have "\<dots> = unat x mod 32" by (simp add: take_bit_eq_mod)
  finally show ?thesis .
qed

lemma newpos_unat: "unat (((x::byte) + 2) AND 31) = (unat x + 2) mod 32"
proof -
  have "unat (x + 2) = (unat x + 2) mod 256" by (simp add: unat_word_ariths)
  then have "unat ((x + 2) AND 31) = (unat x + 2) mod 256 mod 32" by (simp only: and31_unat)
  also have "\<dots> = (unat x + 2) mod 32" by (simp add: mod_mod_cancel)
  finally show ?thesis .
qed

lemma slot_distinct:
  fixes p :: nat
  assumes "p < 32"
  shows "(p + 2) mod 32 \<noteq> p" "(p + 2) mod 32 \<noteq> p + 1" "(p + 2) mod 32 + 1 \<noteq> p"
    "Suc ((p + 2) mod 32) \<noteq> p" "(p + 2) mod 32 \<noteq> Suc p" "(p + 2) mod 32 < 32"
proof -
  define q where "q = (p + 2) mod 32"
  have "q = (if p < 30 then p + 2 else p - 30)"
    unfolding q_def using assms by (simp add: mod_if)
  then have "q \<noteq> p \<and> q \<noteq> p + 1 \<and> q + 1 \<noteq> p \<and> q < 32"
    using assms by (auto split: if_splits)
  then show "(p + 2) mod 32 \<noteq> p" "(p + 2) mod 32 \<noteq> p + 1" "(p + 2) mod 32 + 1 \<noteq> p"
    "Suc ((p + 2) mod 32) \<noteq> p" "(p + 2) mod 32 \<noteq> Suc p" "(p + 2) mod 32 < 32"
    unfolding q_def by simp_all
qed

lemma eepSave_eepos: "eepos (eepSave c g m s) = (eepos s + 2) AND 31"
  by (simp add: eepSave_def Let_def)

lemma eepSave_eeprom_cut: "eeprom (eepSave c g m s) = eepSave_cut 4 c g m s"
  by (simp add: eepSave_def eepSave_cut_def Let_def)

lemma eepSave_other_fields:
  "shortClicks (eepSave c g m s) = shortClicks s" "group_no (eepSave c g m s) = group_no s"
  "mode_no (eepSave c g m s) = mode_no s" "ticks (eepSave c g m s) = ticks s"
  "eep_reads (eepSave c g m s) = eep_reads s"
  by (simp_all add: eepSave_def Let_def)

lemma eepSave_cut_steps:
  assumes p: "unat (eepos s) < 32" and oe: "others_erased (eeprom s) (unat (eepos s))"
  shows "eepSave_cut 1 c g m s = (eeprom s)((unat (eepos s) + 2) mod 32 := c)"
    and "eepSave_cut 2 c g m s = (eeprom s)((unat (eepos s) + 2) mod 32 := c, unat (eepos s) := 0xff)"
    and "eepSave_cut 3 c g m s = (eeprom s)((unat (eepos s) + 2) mod 32 := c, unat (eepos s) := 0xff,
           (unat (eepos s) + 2) mod 32 + 1 := packGroupMode g m)"
    and "eepSave_cut 4 c g m s = (eeprom s)((unat (eepos s) + 2) mod 32 := c, unat (eepos s) := 0xff,
           (unat (eepos s) + 2) mod 32 + 1 := packGroupMode g m, unat (eepos s) + 1 := 0xff)"
proof -
  define old where "old = unat (eepos s)"
  define new where "new = (old + 2) mod 32"
  have d: "new \<noteq> old" "new \<noteq> old + 1" "new + 1 \<noteq> old" "new < 32"
    using slot_distinct[of old] p by (simp_all add: new_def old_def)
  have e1: "eeprom s new = 0xff" "eeprom s (new + 1) = 0xff"
    using oe d by (simp_all add: others_erased_def old_def)
  have n: "unat ((eepos s + 2) AND 31) = new"
    by (simp only: newpos_unat new_def old_def)
  show "eepSave_cut 1 c g m s = (eeprom s)((unat (eepos s) + 2) mod 32 := c)"
    unfolding eepSave_cut_def Let_def n old_def[symmetric] new_def[symmetric]
    using e1 by (simp add: eep_write_only_def)
  show "eepSave_cut 2 c g m s = (eeprom s)((unat (eepos s) + 2) mod 32 := c, unat (eepos s) := 0xff)"
    unfolding eepSave_cut_def Let_def n old_def[symmetric] new_def[symmetric]
    using e1 by (simp add: eep_write_only_def eep_erase_only_def)
  show "eepSave_cut 3 c g m s = (eeprom s)((unat (eepos s) + 2) mod 32 := c, unat (eepos s) := 0xff,
           (unat (eepos s) + 2) mod 32 + 1 := packGroupMode g m)"
    unfolding eepSave_cut_def Let_def n old_def[symmetric] new_def[symmetric]
    using e1 d by (simp add: eep_write_only_def eep_erase_only_def)
  show "eepSave_cut 4 c g m s = (eeprom s)((unat (eepos s) + 2) mod 32 := c, unat (eepos s) := 0xff,
           (unat (eepos s) + 2) mod 32 + 1 := packGroupMode g m, unat (eepos s) + 1 := 0xff)"
    unfolding eepSave_cut_def Let_def n old_def[symmetric] new_def[symmetric]
    using e1 d by (simp add: eep_write_only_def eep_erase_only_def)
qed

lemma eepSave_holds:
  assumes p: "unat (eepos s) < 32" and oe: "others_erased (eeprom s) (unat (eepos s))"
  shows "holds_record (eeprom (eepSave c g m s)) (unat (eepos (eepSave c g m s))) c (packGroupMode g m)"
    and "others_erased (eeprom (eepSave c g m s)) (unat (eepos (eepSave c g m s)))"
    and "unat (eepos (eepSave c g m s)) < 32"
proof -
  define old where "old = unat (eepos s)"
  define new where "new = (old + 2) mod 32"
  have d: "new \<noteq> old" "new \<noteq> old + 1" "new + 1 \<noteq> old" "new < 32"
    using slot_distinct[of old] p by (simp_all add: new_def old_def)
  have n: "unat (eepos (eepSave c g m s)) = new"
    by (simp only: eepSave_eepos newpos_unat new_def old_def)
  have e: "eeprom (eepSave c g m s) = (eeprom s)(new := c, old := 0xff,
           new + 1 := packGroupMode g m, old + 1 := 0xff)"
    by (simp only: eepSave_eeprom_cut eepSave_cut_steps(4)[OF p oe] new_def old_def)
  show "holds_record (eeprom (eepSave c g m s)) (unat (eepos (eepSave c g m s))) c (packGroupMode g m)"
    unfolding n e using d by (simp add: holds_record_def)
  show "others_erased (eeprom (eepSave c g m s)) (unat (eepos (eepSave c g m s)))"
    unfolding n e using oe d by (simp add: others_erased_def old_def)
  show "unat (eepos (eepSave c g m s)) < 32"
    unfolding n by (rule d)
qed

lemma eepSave_all_eepos:
  "unat (eepos (eepSave_all rs s)) mod 32 = (unat (eepos s) + 2 * length rs) mod 32"
proof (induction rs arbitrary: s)
  case Nil
  then show ?case by simp
next
  case (Cons r rs)
  obtain c g m where r: "r = (c, g, m)" by (cases r)
  have "unat (eepos (eepSave_all (r # rs) s)) mod 32
      = (unat (eepos (eepSave c g m s)) + 2 * length rs) mod 32"
    using Cons.IH[of "eepSave c g m s"] by (simp add: r)
  also have "\<dots> = ((unat (eepos s) + 2) mod 32 + 2 * length rs) mod 32"
    by (simp only: eepSave_eepos newpos_unat)
  also have "\<dots> = ((unat (eepos s) + 2) + 2 * length rs) mod 32"
    by (rule mod_add_left_eq)
  also have "\<dots> = (unat (eepos s) + 2 * length (r # rs)) mod 32"
    by (simp add: add.assoc)
  finally show ?case .
qed

lemma eepSave_all_eepos_lt: "unat (eepos s) < 32 \<Longrightarrow> unat (eepos (eepSave_all rs s)) < 32"
proof (induction rs arbitrary: s)
  case Nil
  then show ?case by simp
next
  case (Cons r rs)
  obtain c g m where r: "r = (c, g, m)" by (cases r)
  have "unat (eepos (eepSave c g m s)) < 32" by (simp add: eepSave_eepos newpos_unat)
  from Cons.IH[OF this] show ?case by (simp add: r)
qed

lemma eepSave_16_wraps:
  assumes "unat (eepos s) < 32" "length rs = 16"
  shows "eepos (eepSave_all rs s) = eepos s"
proof -
  have "unat (eepos (eepSave_all rs s)) mod 32 = (unat (eepos s) + 32) mod 32"
    using eepSave_all_eepos[of rs s] assms(2) by simp
  then have "unat (eepos (eepSave_all rs s)) = unat (eepos s)"
    using assms(1) eepSave_all_eepos_lt[OF assms(1), of rs] by simp
  then show ?thesis by (simp add: word_unat_eq_iff)
qed

lemma scan_step:
  "e (unat pos) = 0xff \<Longrightarrow> pos < 30 \<Longrightarrow>
     eepLoad_scan e pos rd = eepLoad_scan e (pos + 1) (rd @ [unat pos])"
  by (subst eepLoad_scan.simps) (simp add: Let_def eepReadByte_def)

lemma scan_stop:
  "e (unat pos) \<noteq> 0xff \<or> \<not> pos < 30 \<Longrightarrow>
     eepLoad_scan e pos rd = (pos, e (unat pos), rd @ [unat pos])"
  by (subst eepLoad_scan.simps) (auto simp add: Let_def eepReadByte_def)

text \<open>
  Claim C1, as stated, fails: \<^verbatim>\<open>eepSave\<close> does not complete the write of the new
  record before it erases the previous slot. It erases the first byte of the old record
  after the first byte of the new one is written and before the second byte of the new
  one is written. With the record \<open>(0x81, 0x01)\<close> in slot 0 and the lock-in call
  \<^verbatim>\<open>eepSave(0, 0, 1)\<close>, a power cut after the second EEPROM operation leaves neither
  the old record in slot 0 nor the new record in slot 2, and the scan of the next boot
  stops at address 1, taking the old group/mode byte for the tally byte.
\<close>

theorem eepSave_power_cut_no_record:
  "\<not> holds_record (eepSave_cut 2 0 0 1 (power_on (erased(0 := 0x81, 1 := 0x01)))) 0 0x81 0x01 \<and>
   \<not> holds_record (eepSave_cut 2 0 0 1 (power_on (erased(0 := 0x81, 1 := 0x01)))) 2 0
       (packGroupMode 0 1) \<and>
   eepLoad_scan (eepSave_cut 2 0 0 1 (power_on (erased(0 := 0x81, 1 := 0x01)))) 0 []
     = (1, 0x01, [0, 1])"
proof -
  have e: "eepSave_cut 2 0 0 1 (power_on (erased(0 := 0x81, 1 := 0x01)))
           = erased(0 := 0xff, 1 := 0x01, 2 := 0)"
    by (rule ext)
      (simp add: eepSave_cut_def Let_def power_on_def erased_def eep_write_only_def
        eep_erase_only_def)
  have s: "eepLoad_scan (erased(0 := 0xff, 1 := 0x01, 2 := 0)) 0 [] = (1, 0x01, [0, 1])"
    by (simp add: scan_step scan_stop)
  show ?thesis
    unfolding e using s by (simp add: holds_record_def packGroupMode_def erased_def)
qed

text \<open>
  Claim C1, amended. For every state whose position is inside the 32-byte log and in
  which all cells outside the current slot are erased, \<^verbatim>\<open>eepSave(c, g, m)\<close> moves the
  position to the current position plus 2, modulo 32, and performs four EEPROM operations
  in this order: it writes \<open>c\<close> at the new position (the old record is still intact),
  erases the cell at the old position, writes the packed group and mode at the new
  position plus one, and erases the cell at the old position plus one. When all four
  have run, the new slot holds exactly the new record and every other cell is erased;
  16 consecutive appends bring the position back to where it started.
\<close>

theorem eepSave_steps:
  assumes "unat (eepos s) < 32" and "others_erased (eeprom s) (unat (eepos s))"
  shows "unat (eepos (eepSave c g m s)) = (unat (eepos s) + 2) mod 32 \<and>
         eepSave_cut 1 c g m s = (eeprom s)((unat (eepos s) + 2) mod 32 := c) \<and>
         eepSave_cut 2 c g m s
           = (eeprom s)((unat (eepos s) + 2) mod 32 := c, unat (eepos s) := 0xff) \<and>
         eepSave_cut 3 c g m s
           = (eeprom s)((unat (eepos s) + 2) mod 32 := c, unat (eepos s) := 0xff,
               (unat (eepos s) + 2) mod 32 + 1 := packGroupMode g m) \<and>
         eeprom (eepSave c g m s)
           = (eeprom s)((unat (eepos s) + 2) mod 32 := c, unat (eepos s) := 0xff,
               (unat (eepos s) + 2) mod 32 + 1 := packGroupMode g m,
               unat (eepos s) + 1 := 0xff) \<and>
         holds_record (eeprom (eepSave c g m s)) (unat (eepos (eepSave c g m s))) c
           (packGroupMode g m) \<and>
         others_erased (eeprom (eepSave c g m s)) (unat (eepos (eepSave c g m s))) \<and>
         (\<forall>rs. length rs = 16 \<longrightarrow> eepos (eepSave_all rs s) = eepos s)"
proof -
  have "unat (eepos (eepSave c g m s)) = (unat (eepos s) + 2) mod 32"
    by (simp only: eepSave_eepos newpos_unat)
  moreover have "eeprom (eepSave c g m s)
           = (eeprom s)((unat (eepos s) + 2) mod 32 := c, unat (eepos s) := 0xff,
               (unat (eepos s) + 2) mod 32 + 1 := packGroupMode g m,
               unat (eepos s) + 1 := 0xff)"
    by (simp only: eepSave_eeprom_cut eepSave_cut_steps(4)[OF assms])
  moreover have "\<forall>rs. length rs = 16 \<longrightarrow> eepos (eepSave_all rs s) = eepos s"
    using eepSave_16_wraps[OF assms(1)] by blast
  ultimately show ?thesis
    using eepSave_cut_steps(1-3)[OF assms, of c g m] eepSave_holds(1,2)[OF assms, of c g m]
    by blast
qed

theorem eepSave_steps_witness:
  "unat (eepos (power_on (erased(0 := 0x81, 1 := 0x01)))) < 32 \<and>
   others_erased (eeprom (power_on (erased(0 := 0x81, 1 := 0x01)))) 0 \<and>
   unat (eepos (eepSave 0 0 1 (power_on (erased(0 := 0x81, 1 := 0x01))))) = 2 \<and>
   holds_record (eeprom (eepSave 0 0 1 (power_on (erased(0 := 0x81, 1 := 0x01))))) 2 0 1 \<and>
   length (replicate 16 (0::byte, 0::byte, 1::byte)) = 16 \<and>
   eepos (eepSave_all (replicate 16 (0, 0, 1)) (power_on (erased(0 := 0x81, 1 := 0x01)))) = 0"
proof -
  define s0 where "s0 = power_on (erased(0 := 0x81, 1 := 0x01))"
  have z: "unat (eepos s0) = 0" "eepos s0 = 0"
    by (simp_all add: s0_def power_on_def)
  have h: "unat (eepos s0) < 32" "others_erased (eeprom s0) (unat (eepos s0))"
    by (simp_all add: s0_def power_on_def others_erased_def erased_def)
  have l: "length (replicate 16 (0::byte, 0::byte, 1::byte)) = 16" by simp
  note t = eepSave_steps[OF h, of 0 0 1]
  have a: "unat (eepos (eepSave 0 0 1 s0)) = (unat (eepos s0) + 2) mod 32"
    using t by blast
  have b: "holds_record (eeprom (eepSave 0 0 1 s0)) (unat (eepos (eepSave 0 0 1 s0))) 0
       (packGroupMode 0 1)"
    using t by blast
  have c: "eepos (eepSave_all (replicate 16 (0, 0, 1)) s0) = eepos s0"
    using t l by blast
  have a': "unat (eepos (eepSave 0 0 1 s0)) = 2"
    using a by (simp add: z)
  have b': "holds_record (eeprom (eepSave 0 0 1 s0)) 2 0 1"
    using b unfolding a' by (simp add: packGroupMode_def)
  have h1: "others_erased (eeprom s0) 0"
    using h(2) by (simp add: z)
  have c': "eepos (eepSave_all (replicate 16 (0, 0, 1)) s0) = 0"
    using c by (simp add: z)
  from h(1) h1 a' b' c' l show ?thesis
    unfolding s0_def by blast
qed

section \<open>The boot-time scan of the two-byte log\<close>

lemma scan_found_gen:
  assumes "p \<le> 30" and "\<forall>a<p. e a = 0xff" and "e p \<noteq> 0xff \<or> p = 30"
  shows "unat pos = k \<Longrightarrow> k \<le> p \<Longrightarrow>
         eepLoad_scan e pos rd = (of_nat p, e p, rd @ [k..<Suc p])"
proof (induction "p - k" arbitrary: pos rd k)
  case 0
  then have kp: "unat pos = p" by simp
  have "of_nat (unat pos) = pos" by simp
  then have pp: "pos = of_nat p" by (simp only: kp)
  have st: "e (unat pos) \<noteq> 0xff \<or> \<not> pos < 30"
    using assms(3) kp by (auto simp add: word_less_nat_alt)
  have "eepLoad_scan e pos rd = (pos, e (unat pos), rd @ [unat pos])"
    using st by (rule scan_stop[where e = e and pos = pos and rd = rd])
  then show ?case
    using kp pp 0 by simp
next
  case (Suc d)
  then have lt: "k < p" by simp
  have k30: "unat pos < 30" using lt assms(1) Suc.prems by simp
  then have p30: "pos < 30" by (simp add: word_less_nat_alt)
  have ek: "e (unat pos) = 0xff" using assms(2) lt Suc.prems by simp
  have u: "unat (pos + 1) = Suc k"
    using k30 Suc.prems by (simp add: unat_word_ariths)
  have d: "d = p - Suc k" using Suc.hyps(2) by simp
  have "eepLoad_scan e pos rd = eepLoad_scan e (pos + 1) (rd @ [unat pos])"
    using ek p30 by (rule scan_step[where e = e and pos = pos and rd = rd])
  also have "\<dots> = (of_nat p, e p, (rd @ [unat pos]) @ [Suc k..<Suc p])"
    using Suc.hyps(1)[OF d u] lt by simp
  also have "(rd @ [unat pos]) @ [Suc k..<Suc p] = rd @ [k..<Suc p]"
    using lt Suc.prems(1) by (simp add: upt_conv_Cons)
  finally show ?case .
qed

lemma scan_found:
  assumes "p \<le> 30" and "\<forall>a<p. e a = 0xff" and "e p \<noteq> 0xff \<or> p = 30"
  shows "eepLoad_scan e 0 [] = (of_nat p, e p, [0..<Suc p])"
  using scan_found_gen[OF assms, of 0 0 "[]"] by simp

lemma first_nonerased:
  "\<exists>p\<le>30. (\<forall>a<p. (e::eeprom) a = 0xff) \<and> (e p \<noteq> 0xff \<or> p = 30)"
proof (cases "\<exists>a\<le>30. e a \<noteq> 0xff")
  case True
  define p where "p = (LEAST a. e a \<noteq> 0xff)"
  from True obtain a where a: "a \<le> 30" "e a \<noteq> 0xff" by blast
  have "e p \<noteq> 0xff" unfolding p_def using a(2) by (rule LeastI)
  moreover have "p \<le> a" unfolding p_def using a(2) by (rule Least_le)
  moreover have "\<forall>b<p. e b = 0xff" unfolding p_def using not_less_Least by blast
  ultimately show ?thesis using a(1) by (intro exI[of _ p]) auto
next
  case False
  then show ?thesis by (intro exI[of _ 30]) auto
qed

lemma scan_reads_in_log:
  "\<exists>p\<le>30. eepLoad_scan e 0 [] = (of_nat p, e p, [0..<Suc p])"
  using first_nonerased[of e] scan_found by blast

lemma unat_of_nat_le30: "p \<le> 30 \<Longrightarrow> unat (of_nat p :: byte) = p"
  by (simp add: unat_of_nat)

lemma eepLoad_nanjg_found:
  assumes "p \<le> 30" and "\<forall>a<p. e a = 0xff" and "e p \<noteq> 0xff"
  shows "group_no (eepLoad_nanjg cfg (power_on e)) = decodeGroup cfg (e (p + 1))"
    and "mode_no (eepLoad_nanjg cfg (power_on e)) =
          (if e p AND 0x80 \<noteq> 0
           then getNextMode cfg (decodeGroup cfg (e (p + 1))) (decodeMode cfg (e (p + 1)))
           else decodeMode cfg (e (p + 1)))"
    and "shortClicks (eepLoad_nanjg cfg (power_on e)) =
          (if e p AND 0x80 \<noteq> 0 then (e p AND 0x7f) + 1 else e p AND 0x7f)"
    and "eep_reads (eepLoad_nanjg cfg (power_on e)) = [0..<Suc p] @ [Suc p]"
proof -
  have sc: "eepLoad_scan e 0 [] = (of_nat p, e p, [0..<Suc p])"
    using assms by (intro scan_found) auto
  show "group_no (eepLoad_nanjg cfg (power_on e)) = decodeGroup cfg (e (p + 1))"
    using assms(1,3)
    by (simp add: eepLoad_nanjg_def power_on_def sc Let_def eepSave_other_fields
        eepReadByte_def unat_of_nat_le30)
  show "mode_no (eepLoad_nanjg cfg (power_on e)) =
          (if e p AND 0x80 \<noteq> 0
           then getNextMode cfg (decodeGroup cfg (e (p + 1))) (decodeMode cfg (e (p + 1)))
           else decodeMode cfg (e (p + 1)))"
    using assms(1,3)
    by (simp add: eepLoad_nanjg_def power_on_def sc Let_def eepSave_other_fields
        eepReadByte_def unat_of_nat_le30)
  show "shortClicks (eepLoad_nanjg cfg (power_on e)) =
          (if e p AND 0x80 \<noteq> 0 then (e p AND 0x7f) + 1 else e p AND 0x7f)"
    using assms(1,3)
    by (simp add: eepLoad_nanjg_def power_on_def sc Let_def eepSave_other_fields
        eepReadByte_def unat_of_nat_le30)
  show "eep_reads (eepLoad_nanjg cfg (power_on e)) = [0..<Suc p] @ [Suc p]"
    using assms(1,3)
    by (simp add: eepLoad_nanjg_def power_on_def sc Let_def eepSave_other_fields
        eepReadByte_def unat_of_nat_le30)
qed

lemma eepLoad_a17_found:
  assumes "p \<le> 30" and "\<forall>a<p. e a = 0xff" and "e p \<noteq> 0xff"
  shows "group_no (eepLoad_a17 cfg cap (power_on e)) = decodeGroup cfg (e (p + 1))"
    and "mode_no (eepLoad_a17 cfg cap (power_on e)) =
          (if cap > CAP_THRESHOLD
           then getNextMode cfg (decodeGroup cfg (e (p + 1))) (decodeMode cfg (e (p + 1)))
           else (case MEM cfg of
                   MEM_NEXT \<Rightarrow> getNextMode cfg (decodeGroup cfg (e (p + 1))) (decodeMode cfg (e (p + 1)))
                 | MEM_FIRST \<Rightarrow> 0
                 | MEM_LAST \<Rightarrow> decodeMode cfg (e (p + 1))))"
    and "shortClicks (eepLoad_a17 cfg cap (power_on e)) =
          (if cap > CAP_THRESHOLD then e p + 1 else 0)"
    and "eep_reads (eepLoad_a17 cfg cap (power_on e)) = [0..<Suc p] @ [Suc p]"
proof -
  have sc: "eepLoad_scan e 0 [] = (of_nat p, e p, [0..<Suc p])"
    using assms by (intro scan_found) auto
  show "group_no (eepLoad_a17 cfg cap (power_on e)) = decodeGroup cfg (e (p + 1))"
    using assms(1,3)
    by (simp add: eepLoad_a17_def power_on_def sc Let_def eepSave_other_fields
        eepReadByte_def unat_of_nat_le30 split: mem_policy.split)
  show "mode_no (eepLoad_a17 cfg cap (power_on e)) =
          (if cap > CAP_THRESHOLD
           then getNextMode cfg (decodeGroup cfg (e (p + 1))) (decodeMode cfg (e (p + 1)))
           else (case MEM cfg of
                   MEM_NEXT \<Rightarrow> getNextMode cfg (decodeGroup cfg (e (p + 1))) (decodeMode cfg (e (p + 1)))
                 | MEM_FIRST \<Rightarrow> 0
                 | MEM_LAST \<Rightarrow> decodeMode cfg (e (p + 1))))"
    using assms(1,3)
    by (simp add: eepLoad_a17_def power_on_def sc Let_def eepSave_other_fields
        eepReadByte_def unat_of_nat_le30 split: mem_policy.split)
  show "shortClicks (eepLoad_a17 cfg cap (power_on e)) =
          (if cap > CAP_THRESHOLD then e p + 1 else 0)"
    using assms(1,3)
    by (simp add: eepLoad_a17_def power_on_def sc Let_def eepSave_other_fields
        eepReadByte_def unat_of_nat_le30 split: mem_policy.split)
  show "eep_reads (eepLoad_a17 cfg cap (power_on e)) = [0..<Suc p] @ [Suc p]"
    using assms(1,3)
    by (simp add: eepLoad_a17_def power_on_def sc Let_def eepSave_other_fields
        eepReadByte_def unat_of_nat_le30 split: mem_policy.split)
qed

lemma eepLoad_empty:
  assumes "\<forall>a<32. e a = 0xff"
  shows "group_no (eepLoad_nanjg cfg (power_on e)) = 0"
    and "mode_no (eepLoad_nanjg cfg (power_on e)) = 0"
    and "shortClicks (eepLoad_nanjg cfg (power_on e)) = 0"
    and "eep_reads (eepLoad_nanjg cfg (power_on e)) = [0..<32]"
    and "eepos (eepLoad_nanjg cfg (power_on e)) = 0"
    and "holds_record (eeprom (eepLoad_nanjg cfg (power_on e))) 0 0x80 0"
    and "group_no (eepLoad_a17 cfg cap (power_on e)) = 0"
    and "mode_no (eepLoad_a17 cfg cap (power_on e)) = 0"
    and "shortClicks (eepLoad_a17 cfg cap (power_on e)) = 0"
    and "eep_reads (eepLoad_a17 cfg cap (power_on e)) = [0..<32]"
    and "eepos (eepLoad_a17 cfg cap (power_on e)) = 0"
    and "holds_record (eeprom (eepLoad_a17 cfg cap (power_on e))) 0 0 0"
proof -
  have sc: "eepLoad_scan e 0 [] = (30, 0xff, [0..<31])"
    using scan_found[of 30 e] assms by simp
  have u: "[0..<31] @ [31] = [0..<32]"
    using upt_Suc_append[of 0 31] by simp
  have e01: "e 0 = 0xff" "e (Suc 0) = 0xff" using assms by simp_all
  show "group_no (eepLoad_nanjg cfg (power_on e)) = 0"
    "mode_no (eepLoad_nanjg cfg (power_on e)) = 0"
    "shortClicks (eepLoad_nanjg cfg (power_on e)) = 0"
    "group_no (eepLoad_a17 cfg cap (power_on e)) = 0"
    "mode_no (eepLoad_a17 cfg cap (power_on e)) = 0"
    "shortClicks (eepLoad_a17 cfg cap (power_on e)) = 0"
    by (simp_all add: eepLoad_nanjg_def eepLoad_a17_def power_on_def sc Let_def
        eepSave_other_fields)
  show "eep_reads (eepLoad_nanjg cfg (power_on e)) = [0..<32]"
    "eep_reads (eepLoad_a17 cfg cap (power_on e)) = [0..<32]"
    by (simp_all add: eepLoad_nanjg_def eepLoad_a17_def power_on_def sc Let_def
        eepSave_other_fields u)
  show "eepos (eepLoad_nanjg cfg (power_on e)) = 0"
    "eepos (eepLoad_a17 cfg cap (power_on e)) = 0"
    by (simp_all add: eepLoad_nanjg_def eepLoad_a17_def power_on_def sc Let_def eepSave_eepos)
  show "holds_record (eeprom (eepLoad_nanjg cfg (power_on e))) 0 0x80 0"
    "holds_record (eeprom (eepLoad_a17 cfg cap (power_on e))) 0 0 0"
    using e01
    by (simp_all add: eepLoad_nanjg_def eepLoad_a17_def power_on_def sc Let_def eepSave_def
        eep_write_only_def eep_erase_only_def holds_record_def packGroupMode_def)
qed

text \<open>What \<^verbatim>\<open>main\<close> shows is determined by the result of \<^verbatim>\<open>eepLoad\<close>.\<close>

lemma main_a17_fields:
  "battcheck_shown (main_a17 cfg e cap v) =
     (if BATTCHECK \<le> shortClicks (eepLoad_a17 cfg cap (power_on e))
      then Some (blinksCount v) else None)"
  "display_mode (main_a17 cfg e cap v) =
     switch_a17 (pgm_read_byte cfg (group_no (eepLoad_a17 cfg cap (power_on e)))
                                   (mode_no (eepLoad_a17 cfg cap (power_on e))))"
  by (simp_all add: main_a17_def Let_def)

lemma main_nanjg_fields:
  "battcheck_shown (main_nanjg cfg e v) =
     (if BATTCHECK \<le> shortClicks (eepLoad_nanjg cfg (power_on e))
      then Some (blinksCount v) else None)"
  "display_mode (main_nanjg cfg e v) =
     switch_nanjg (pgm_read_byte cfg (group_no (eepLoad_nanjg cfg (power_on e)))
                                     (mode_no (eepLoad_nanjg cfg (power_on e))))"
  by (simp_all add: main_nanjg_def Let_def)

section \<open>The next mode and the effective length of a group\<close>

lemma effective_length_le:
  assumes "config_ok cfg" "unat g < GROUPS_COUNT cfg"
  shows "effective_length cfg g \<le> MODES_COUNT cfg"
  using length_takeWhile_le[of "\<lambda>v. v \<noteq> 0" "groups cfg ! unat g"]
    table_row_length[OF assms]
  by (simp add: effective_length_def)

lemma below_effective_nonzero:
  assumes "i < effective_length cfg g"
  shows "groups cfg ! unat g ! i \<noteq> 0"
proof -
  have "takeWhile (\<lambda>v. v \<noteq> 0) (groups cfg ! unat g) ! i \<in>
          set (takeWhile (\<lambda>v. v \<noteq> 0) (groups cfg ! unat g))"
    using assms by (simp add: effective_length_def)
  then have "takeWhile (\<lambda>v. v \<noteq> 0) (groups cfg ! unat g) ! i \<noteq> 0"
    by (auto dest: set_takeWhileD)
  then show ?thesis
    using assms by (simp add: effective_length_def takeWhile_nth)
qed

lemma at_effective_zero:
  assumes "effective_length cfg g < length (groups cfg ! unat g)"
  shows "groups cfg ! unat g ! effective_length cfg g = 0"
  using nth_length_takeWhile[of "\<lambda>v. v \<noteq> 0" "groups cfg ! unat g"] assms
  by (simp add: effective_length_def)

lemma beyond_effective_zero:
  assumes "zeros_trailing cfg" "unat g < length (groups cfg)"
    and "effective_length cfg g \<le> i" "i < length (groups cfg ! unat g)"
  shows "groups cfg ! unat g ! i = 0"
proof -
  define row where "row = groups cfg ! unat g"
  define n where "n = effective_length cfg g"
  have "list_all (\<lambda>v. v = 0) (dropWhile (\<lambda>v. v \<noteq> 0) row)"
    using assms(1,2) by (simp add: zeros_trailing_def list_all_length row_def)
  moreover have "dropWhile (\<lambda>v. v \<noteq> 0) row = drop n row"
    unfolding n_def effective_length_def row_def by (rule dropWhile_eq_drop)
  ultimately have all0: "\<forall>v \<in> set (drop n row). v = 0"
    by (simp only: list_all_iff)
  have "row ! i = drop n row ! (i - n)"
    using assms(3,4) by (simp add: n_def row_def)
  moreover have "drop n row ! (i - n) \<in> set (drop n row)"
    using assms(3,4) by (intro nth_mem) (simp add: n_def row_def)
  ultimately show ?thesis using all0 by (simp add: row_def)
qed

lemma getNextMode_spec:
  assumes ok: "config_ok cfg" and g: "unat g < GROUPS_COUNT cfg" and m: "unat m < MODES_COUNT cfg"
    and c: "unat m < effective_length cfg g \<or> zeros_trailing cfg"
  shows "getNextMode cfg g m = spec_successor cfg g m"
proof -
  have len: "length (groups cfg ! unat g) = MODES_COUNT cfg"
    by (rule table_row_length[OF ok g])
  have glen: "unat g < length (groups cfg)"
    using ok g by (simp add: config_ok_def)
  have mc: "0 < MODES_COUNT cfg" "MODES_COUNT cfg \<le> 16"
    using ok by (simp_all add: config_ok_def)
  have el: "effective_length cfg g \<le> MODES_COUNT cfg"
    by (rule effective_length_le[OF ok g])
  define n where "n = (unat m + 1) mod MODES_COUNT cfg"
  have un: "unat (of_nat n :: byte) = n"
    unfolding n_def by (rule unat_of_nat_mod_small[OF mc])
  have gn: "getNextMode cfg g m =
      (if groups cfg ! unat g ! n = 0 then 0 else of_nat n)"
    unfolding getNextMode_def Let_def pgm_read_byte_def n_def[symmetric] un by simp
  show ?thesis
  proof (cases "unat m + 1 < effective_length cfg g")
    case True
    then have n1: "n = unat m + 1" using el by (simp add: n_def)
    have "groups cfg ! unat g ! n \<noteq> 0"
      unfolding n1 using True by (rule below_effective_nonzero)
    then show ?thesis using True by (simp add: gn spec_successor_def n1)
  next
    case False
    show ?thesis
    proof (cases "unat m + 1 = MODES_COUNT cfg")
      case True
      then have "n = 0" by (simp add: n_def)
      then show ?thesis using False by (simp add: gn spec_successor_def)
    next
      case F2: False
      then have n1: "n = unat m + 1" and nl: "n < MODES_COUNT cfg"
        using m by (simp_all add: n_def)
      have "groups cfg ! unat g ! n = 0"
      proof (cases "unat m < effective_length cfg g")
        case True
        then have "n = effective_length cfg g" using False n1 by simp
        then show ?thesis using at_effective_zero[of cfg g] nl len by simp
      next
        case F3: False
        then have "zeros_trailing cfg" using c by simp
        then show ?thesis
          using beyond_effective_zero[of cfg g n] glen F3 n1 nl len by simp
      qed
      then show ?thesis using False by (simp add: gn spec_successor_def)
    qed
  qed
qed

section \<open>The boot-time scan of v1.0\<close>

lemma v1_scan_step:
  assumes "k < 32"
  shows "getmode_scan (map erased [0..<32]) (of_nat k)
       = getmode_scan (map erased [0..<32]) (of_nat (Suc k))"
proof -
  have u: "unat (of_nat k :: byte) = k" using assms by (simp add: unat_of_nat)
  have lt: "(of_nat k :: byte) < 32" using assms u by (simp add: word_less_nat_alt)
  have r: "array_read (map erased [0..<32]) (unat (of_nat k :: byte)) = Inr 0xff"
    unfolding u using assms by (simp add: array_read_def erased_def)
  have s: "(of_nat (Suc k) :: byte) = of_nat k + 1" by simp
  show ?thesis
    unfolding s by (subst getmode_scan.simps) (simp only: r lt sum.case simp_thms if_True)
qed

lemma v1_scan_end: "getmode_scan (map erased [0..<32]) 32 = Inl (OutOfBounds 32)"
  by (subst getmode_scan.simps) (simp add: array_read_def)

lemma v1_scan_from:
  "k \<le> 32 \<Longrightarrow> getmode_scan (map erased [0..<32]) (of_nat k) = Inl (OutOfBounds 32)"
proof (induction "32 - k" arbitrary: k)
  case 0
  then have "k = 32" by simp
  then show ?case using v1_scan_end by simp
next
  case (Suc d)
  then have k: "k < 32" "d = 32 - Suc k" "Suc k \<le> 32" by simp_all
  have "getmode_scan (map erased [0..<32]) (of_nat k)
      = getmode_scan (map erased [0..<32]) (of_nat (Suc k))"
    by (rule v1_scan_step[OF k(1)])
  also have "\<dots> = Inl (OutOfBounds 32)"
    by (rule Suc.hyps(1)[OF k(2,3)])
  finally show ?case .
qed

section \<open>Boot with an empty store and the bounds of the scan\<close>

lemma eepLoad_reads_in_log:
  "set (eep_reads (eepLoad_nanjg cfg (power_on e))) \<subseteq> {0..31} \<and>
   set (eep_reads (eepLoad_a17 cfg cap (power_on e))) \<subseteq> {0..31}"
proof -
  obtain p where p: "p \<le> 30" "\<forall>a<p. e a = 0xff" "e p \<noteq> 0xff \<or> p = 30"
    using first_nonerased[of e] by blast
  have sc: "eepLoad_scan e 0 [] = (of_nat p, e p, [0..<Suc p])"
    by (rule scan_found[OF p])
  have "eep_reads (eepLoad_nanjg cfg (power_on e)) = [0..<Suc p] @ [Suc p]"
    using p(1)
    by (simp add: eepLoad_nanjg_def power_on_def sc Let_def eepSave_other_fields
        unat_of_nat_le30)
  moreover have "eep_reads (eepLoad_a17 cfg cap (power_on e)) = [0..<Suc p] @ [Suc p]"
    using p(1)
    by (simp add: eepLoad_a17_def power_on_def sc Let_def eepSave_other_fields
        unat_of_nat_le30 split: mem_policy.split)
  ultimately show ?thesis using p(1) by auto
qed

text \<open>
  Claim C10 fails on v1.0. With every cell erased, the scan of \<^verbatim>\<open>getmode\<close> in
  \<^verbatim>\<open>quasar.c\<close> tests \<^verbatim>\<open>eep[eepos] == 0xff\<close> before \<^verbatim>\<open>eepos < 32\<close>; after the
  cell at index 31 it increments the position to 32 and reads \<^verbatim>\<open>eep[32]\<close>, one past
  the end of the 32-byte array.
\<close>

theorem getmode_scan_overrun:
  "getmode_scan (map erased [0..<32]) 0 = Inl (OutOfBounds 32)"
  using v1_scan_from[of 0] by simp

text \<open>
  The v2.0 sources handle the empty store. For every boot of \<^verbatim>\<open>eepLoad\<close> (Nanjg and
  A17DD-L) with every cell of the 32-byte log erased, the guard
  \<^verbatim>\<open>if (clicksData != 0xff)\<close> skips the decoding: the resolver yields group 0, mode 0
  and tally 0, and writes that record into slot 0 (with the short-on marker on the Nanjg
  board).
\<close>

lemma eepLoad_empty_store:
  assumes "\<forall>a<32. e a = 0xff"
  shows "group_no (eepLoad_nanjg cfg (power_on e)) = 0 \<and>
         mode_no (eepLoad_nanjg cfg (power_on e)) = 0 \<and>
         shortClicks (eepLoad_nanjg cfg (power_on e)) = 0 \<and>
         holds_record (eeprom (eepLoad_nanjg cfg (power_on e))) 0 0x80 0 \<and>
         group_no (eepLoad_a17 cfg cap (power_on e)) = 0 \<and>
         mode_no (eepLoad_a17 cfg cap (power_on e)) = 0 \<and>
         shortClicks (eepLoad_a17 cfg cap (power_on e)) = 0 \<and>
         holds_record (eeprom (eepLoad_a17 cfg cap (power_on e))) 0 0 0"
  using eepLoad_empty[OF assms] by blast

text \<open>
  \<^verbatim>\<open>getmode\<close> of v1.0 has no such guard: it decodes whatever byte the scan stopped
  at. The erased byte, decoded the way \<^verbatim>\<open>getmode\<close> decodes a record, is a record with
  the short-on marker set for group 0 and mode 0, whose next mode is 1.
\<close>

lemma v1_erased_byte_decodes:
  "(0xff::byte) AND 0x80 \<noteq> 0 \<and> getmode_group_v1 v1_config 0xff = 0 \<and>
   getmode_mode_v1 v1_config 0xff = 0 \<and> getNextMode_v1 v1_config 0 0 = 1"
  by (simp add: getmode_group_v1_def getmode_mode_v1_def getNextMode_v1_def decodeGroup_v1_def
      decodeMode_v1_def v1_config_def pgm_read_byte_def Let_def)

text \<open>
  Claim C2 fails on v1.0. With an empty store, \<^verbatim>\<open>getmode\<close> of \<^verbatim>\<open>quasar.c\<close> does
  not resolve group 0, mode 0 and tally 0 from the store: for every configuration and
  every power-on value of the click counter, its scan runs through the 32 erased bytes of
  the buffer and reads \<^verbatim>\<open>eep[32]\<close>, and the record it decodes is that byte beyond the
  buffer. The click counter \<^verbatim>\<open>battcheckCounter\<close> is not reset either.
\<close>

theorem getmode_empty_store:
  "getmode cfg (power_on_v1 erased noinit) = Inl (OutOfBounds 32)"
  using v1_scan_from[of 0] by (simp add: getmode_def power_on_v1_def Let_def)

lemma unat_succ_byte: "x \<noteq> (0xff::byte) \<Longrightarrow> unat (x + 1) = unat x + 1"
proof -
  assume "x \<noteq> 0xff"
  then have "unat x \<noteq> 255" by (simp add: word_unat_eq_iff)
  moreover have "unat x < 256" using unsigned_less[of x] by simp
  ultimately have "unat x + 1 < 256" by simp
  then show ?thesis by (simp add: unat_word_ariths)
qed

lemma and7f_ne_ff: "(x::byte) AND 0x7f \<noteq> 0xff"
proof
  assume "x AND 0x7f = 0xff"
  then have "bit (x AND 0x7f) 7 = bit (0xff::byte) 7" by simp
  then show False by (simp add: bit_and_iff)
qed

section \<open>Resolution after a short session\<close>

lemma unat_and7f_succ: "unat (((x::byte) AND 0x7f) + 1) = unat (x AND 0x7f) + 1"
  by (rule unat_succ_byte) (rule and7f_ne_ff)

text \<open>
  Claim C4. For every boot whose prior session is classified short (the capacitor sample
  is above the threshold on the A17DD-L board, the short-on marker is set on the Nanjg
  board) and whose stored record decodes to a group and a mode below the effective length
  of that group, the resolved mode is the stored mode plus one when that is below the
  effective length and 0 otherwise, and the resolved tally is the stored tally plus one.
  For the group \<open>[6, 32, 128, 255, 0, 0, 0]\<close> the effective length is 4 and the mode
  after mode 3 is mode 0.
\<close>

theorem short_click_resolution:
  assumes "config_ok cfg"
    and "p \<le> 30" and "\<forall>a<p. e a = 0xff" and "e p \<noteq> 0xff"
    and "unat (decodeMode cfg (e (p + 1)))
           < effective_length cfg (decodeGroup cfg (e (p + 1)))"
  shows "(cap > CAP_THRESHOLD \<longrightarrow>
            group_no (eepLoad_a17 cfg cap (power_on e)) = decodeGroup cfg (e (p + 1)) \<and>
            mode_no (eepLoad_a17 cfg cap (power_on e))
              = spec_successor cfg (decodeGroup cfg (e (p + 1))) (decodeMode cfg (e (p + 1))) \<and>
            unat (shortClicks (eepLoad_a17 cfg cap (power_on e))) = unat (e p) + 1) \<and>
         (e p AND 0x80 \<noteq> 0 \<longrightarrow>
            group_no (eepLoad_nanjg cfg (power_on e)) = decodeGroup cfg (e (p + 1)) \<and>
            mode_no (eepLoad_nanjg cfg (power_on e))
              = spec_successor cfg (decodeGroup cfg (e (p + 1))) (decodeMode cfg (e (p + 1))) \<and>
            unat (shortClicks (eepLoad_nanjg cfg (power_on e))) = unat (e p AND 0x7f) + 1) \<and>
         effective_length v1_config 0 = 4 \<and>
         getNextMode v1_config 0 3 = 0 \<and> spec_successor v1_config 0 3 = 0"
proof -
  define g where "g = decodeGroup cfg (e (p + 1))"
  define m where "m = decodeMode cfg (e (p + 1))"
  have gm: "unat g < GROUPS_COUNT cfg" "unat m < MODES_COUNT cfg"
    unfolding g_def m_def using assms(1) by (simp_all add: decodeGroup_less decodeMode_less)
  have nx: "getNextMode cfg g m = spec_successor cfg g m"
    using assms(5) by (intro getNextMode_spec[OF assms(1) gm]) (simp add: g_def m_def)
  note a = eepLoad_a17_found[OF assms(2-4), of cfg cap]
  note n = eepLoad_nanjg_found[OF assms(2-4), of cfg]
  have A: "cap > CAP_THRESHOLD \<longrightarrow>
            group_no (eepLoad_a17 cfg cap (power_on e)) = g \<and>
            mode_no (eepLoad_a17 cfg cap (power_on e)) = spec_successor cfg g m \<and>
            unat (shortClicks (eepLoad_a17 cfg cap (power_on e))) = unat (e p) + 1"
    using a(1-3) nx unat_succ_byte[OF assms(4)] by (simp add: g_def m_def)
  have N: "e p AND 0x80 \<noteq> 0 \<longrightarrow>
            group_no (eepLoad_nanjg cfg (power_on e)) = g \<and>
            mode_no (eepLoad_nanjg cfg (power_on e)) = spec_successor cfg g m \<and>
            unat (shortClicks (eepLoad_nanjg cfg (power_on e))) = unat (e p AND 0x7f) + 1"
    using n(1-3) nx unat_and7f_succ[of "e p"] by (simp add: g_def m_def)
  have E: "effective_length v1_config 0 = 4 \<and>
         getNextMode v1_config 0 3 = 0 \<and> spec_successor v1_config 0 3 = 0"
    by (simp add: effective_length_def getNextMode_def spec_successor_def v1_config_def
        pgm_read_byte_def Let_def)
  from A N E show ?thesis unfolding g_def m_def by blast
qed

theorem short_click_resolution_witness:
  "config_ok nanjg_config \<and> (0::nat) \<le> 30 \<and>
   (erased(0 := 0x83, 1 := 0x03)) 0 \<noteq> 0xff \<and>
   unat (decodeMode nanjg_config ((erased(0 := 0x83, 1 := 0x03)) (0 + 1)))
     < effective_length nanjg_config (decodeGroup nanjg_config ((erased(0 := 0x83, 1 := 0x03)) (0 + 1))) \<and>
   (200::byte) > CAP_THRESHOLD \<and> (erased(0 := 0x83, 1 := 0x03)) 0 AND 0x80 \<noteq> 0 \<and>
   mode_no (eepLoad_a17 nanjg_config 200 (power_on (erased(0 := 0x83, 1 := 0x03)))) = 0 \<and>
   unat (shortClicks (eepLoad_a17 nanjg_config 200 (power_on (erased(0 := 0x83, 1 := 0x03))))) = 132 \<and>
   mode_no (eepLoad_nanjg nanjg_config (power_on (erased(0 := 0x83, 1 := 0x03)))) = 0 \<and>
   unat (shortClicks (eepLoad_nanjg nanjg_config (power_on (erased(0 := 0x83, 1 := 0x03))))) = 4"
proof -
  define e0 where "e0 = erased(0 := 0x83, 1 := (0x03::byte))"
  have v: "e0 0 = 0x83" "e0 (0 + 1) = 0x03" by (simp_all add: e0_def)
  have h: "config_ok nanjg_config" "(0::nat) \<le> 30" "\<forall>a<0. e0 a = 0xff" "e0 0 \<noteq> 0xff"
    by (simp_all add: config_ok_def nanjg_config_def v)
  have dm: "decodeMode nanjg_config 3 = 3" "decodeGroup nanjg_config 3 = 0"
    by (simp_all add: decodeMode_def decodeGroup_def nanjg_config_def)
  have el: "effective_length nanjg_config 0 = 4"
    by (simp add: effective_length_def nanjg_config_def)
  have h5: "unat (decodeMode nanjg_config (e0 (0 + 1)))
     < effective_length nanjg_config (decodeGroup nanjg_config (e0 (0 + 1)))"
    unfolding v dm el by simp
  have c: "(200::byte) > CAP_THRESHOLD" "e0 0 AND 0x80 \<noteq> 0"
    by (simp_all add: CAP_THRESHOLD_def v)
  have sp: "spec_successor nanjg_config 0 3 = 0"
    by (simp add: spec_successor_def el)
  note t = short_click_resolution[OF h h5, of 200]
  have a1: "mode_no (eepLoad_a17 nanjg_config 200 (power_on e0)) = 0"
    using t c(1) unfolding v dm sp by blast
  have a2: "unat (shortClicks (eepLoad_a17 nanjg_config 200 (power_on e0))) = unat (e0 0) + 1"
    using t c(1) by blast
  have n1: "mode_no (eepLoad_nanjg nanjg_config (power_on e0)) = 0"
    using t c(2) unfolding v dm sp by blast
  have n2: "unat (shortClicks (eepLoad_nanjg nanjg_config (power_on e0))) = unat (e0 0 AND 0x7f) + 1"
    using t c(2) by blast
  have a2': "unat (shortClicks (eepLoad_a17 nanjg_config 200 (power_on e0))) = 132"
    using a2 by (simp add: v)
  have n2': "unat (shortClicks (eepLoad_nanjg nanjg_config (power_on e0))) = 4"
    using n2 by (simp add: v)
  from h(1,2,4) h5 c a1 a2' n1 n2' show ?thesis unfolding e0_def by blast
qed

section \<open>Resolution after a long session\<close>

lemma isr_before_lock:
  assumes "ticks s = 0"
  shows "n < 50 \<Longrightarrow> (wdt_isr_nanjg cfg ^^ n) s = s\<lparr> ticks := of_nat n \<rparr>"
proof (induction n)
  case 0
  then show ?case using assms by simp
next
  case (Suc n)
  then have n: "n < 49" by simp
  then have u: "unat (of_nat n :: byte) = n" by (simp add: unat_of_nat)
  have lt: "(of_nat n :: byte) < 255" using u n by (simp add: word_less_nat_alt)
  have "unat (of_nat n + 1 :: byte) = n + 1" using n u by (simp add: unat_word_ariths)
  then have "unat (of_nat n + 1 :: byte) \<noteq> unat LOCKTIME" using n by (simp add: LOCKTIME_def)
  then have ne: "(of_nat n + 1 :: byte) \<noteq> LOCKTIME" by auto
  have "(wdt_isr_nanjg cfg ^^ Suc n) s = wdt_isr_nanjg cfg (s\<lparr> ticks := of_nat n \<rparr>)"
    using Suc by simp
  also have "\<dots> = s\<lparr> ticks := of_nat n + 1 \<rparr>"
    using lt ne by (simp add: wdt_isr_nanjg_def Let_def)
  finally show ?case by simp
qed

text \<open>The state after the lock-in write of the watchdog handler.\<close>

lemma doSleep_locktime:
  assumes "ticks s = 0"
  shows "doSleep_nanjg cfg LOCKTIME s =
     (case MEM cfg of
        MEM_NEXT \<Rightarrow> eepSave 0 (group_no s) (getNextMode cfg (group_no s) (mode_no s))
                     (s\<lparr> ticks := 50 \<rparr>)
      | MEM_FIRST \<Rightarrow> eepSave 0 (group_no s) 0 (s\<lparr> ticks := 50 \<rparr>)
      | MEM_LAST \<Rightarrow> eepSave 0 (group_no s) (mode_no s) (s\<lparr> ticks := 50 \<rparr>))"
proof -
  have "doSleep_nanjg cfg LOCKTIME s = (wdt_isr_nanjg cfg ^^ Suc 49) s"
    by (simp add: doSleep_nanjg_def LOCKTIME_def)
  also have "\<dots> = wdt_isr_nanjg cfg ((wdt_isr_nanjg cfg ^^ 49) s)"
    by (simp only: funpow.simps o_apply)
  also have "(wdt_isr_nanjg cfg ^^ 49) s = s\<lparr> ticks := 49 \<rparr>"
    using isr_before_lock[OF assms, of 49 cfg] by simp
  also have "wdt_isr_nanjg cfg (s\<lparr> ticks := 49 \<rparr>) =
     (case MEM cfg of
        MEM_NEXT \<Rightarrow> eepSave 0 (group_no s) (getNextMode cfg (group_no s) (mode_no s))
                     (s\<lparr> ticks := 50 \<rparr>)
      | MEM_FIRST \<Rightarrow> eepSave 0 (group_no s) 0 (s\<lparr> ticks := 50 \<rparr>)
      | MEM_LAST \<Rightarrow> eepSave 0 (group_no s) (mode_no s) (s\<lparr> ticks := 50 \<rparr>))"
    by (simp add: wdt_isr_nanjg_def Let_def LOCKTIME_def split: mem_policy.split)
  finally show ?thesis .
qed




section \<open>Record round trip through the log\<close>

text \<open>
  A boot from the log as \<^verbatim>\<open>eepSave(c, g, m)\<close> leaves it, for a first byte \<open>c\<close> that
  is not the erased value: the scan finds the record, and \<^verbatim>\<open>eepLoad\<close> of the Nanjg
  source decodes it.
\<close>

lemma boot_after_save:
  assumes ok: "config_ok cfg"
    and p: "unat (eepos s) < 32" "even (unat (eepos s))"
    and oe: "others_erased (eeprom s) (unat (eepos s))"
    and g: "unat g < GROUPS_COUNT cfg" and m: "unat m < MODES_COUNT cfg"
    and c: "c \<noteq> 0xff"
  shows "eepLoad_scan (eeprom (eepSave c g m s)) 0 []
           = (eepos (eepSave c g m s), c, [0..<Suc (unat (eepos (eepSave c g m s)))])"
    and "decodeGroup cfg (eeprom (eepSave c g m s) (unat (eepos (eepSave c g m s)) + 1)) = g"
    and "decodeMode cfg (eeprom (eepSave c g m s) (unat (eepos (eepSave c g m s)) + 1)) = m"
    and "group_no (eepLoad_nanjg cfg (power_on (eeprom (eepSave c g m s)))) = g"
    and "mode_no (eepLoad_nanjg cfg (power_on (eeprom (eepSave c g m s)))) =
           (if c AND 0x80 \<noteq> 0 then getNextMode cfg g m else m)"
    and "shortClicks (eepLoad_nanjg cfg (power_on (eeprom (eepSave c g m s)))) =
           (if c AND 0x80 \<noteq> 0 then (c AND 0x7f) + 1 else c AND 0x7f)"
proof -
  define e' where "e' = eeprom (eepSave c g m s)"
  define new where "new = unat (eepos (eepSave c g m s))"
  have hr: "holds_record e' new c (packGroupMode g m)"
    unfolding e'_def new_def by (rule eepSave_holds(1)[OF p(1) oe])
  have oe': "others_erased e' new"
    unfolding e'_def new_def by (rule eepSave_holds(2)[OF p(1) oe])
  have nv: "new = (unat (eepos s) + 2) mod 32"
    unfolding new_def by (simp only: eepSave_eepos newpos_unat)
  have odd: "unat (eepos s) \<noteq> 29" "unat (eepos s) \<noteq> 31"
    using p(2) by auto
  have "new = (if unat (eepos s) < 30 then unat (eepos s) + 2 else unat (eepos s) - 30)"
    unfolding nv using p(1) by (simp add: mod_if)
  then have n30: "new \<le> 30"
    using odd p(1) by (auto split: if_splits)
  have before: "\<forall>a<new. e' a = 0xff"
    using oe' by (simp add: others_erased_def)
  have cv: "e' new = c" and gmv: "e' (new + 1) = packGroupMode g m"
    using hr by (simp_all add: holds_record_def)
  have gmv': "e' (Suc new) = packGroupMode g m" using gmv by simp
  have ne: "e' new \<noteq> 0xff" using c by (simp add: cv)
  have pos: "eepos (eepSave c g m s) = of_nat new" by (simp add: new_def)
  note f = eepLoad_nanjg_found[OF n30 before ne, of cfg]
  have "eepLoad_scan e' 0 [] = (of_nat new, e' new, [0..<Suc new])"
    using n30 before ne by (intro scan_found) auto
  then show "eepLoad_scan (eeprom (eepSave c g m s)) 0 []
           = (eepos (eepSave c g m s), c, [0..<Suc (unat (eepos (eepSave c g m s)))])"
    unfolding e'_def[symmetric] new_def[symmetric] cv by (simp only: pos)
  show "decodeGroup cfg (eeprom (eepSave c g m s) (unat (eepos (eepSave c g m s)) + 1)) = g"
    unfolding e'_def[symmetric] new_def[symmetric] gmv by (rule decodeGroup_pack[OF ok g m])
  show "decodeMode cfg (eeprom (eepSave c g m s) (unat (eepos (eepSave c g m s)) + 1)) = m"
    unfolding e'_def[symmetric] new_def[symmetric] gmv by (rule decodeMode_pack[OF ok g m])
  show "group_no (eepLoad_nanjg cfg (power_on (eeprom (eepSave c g m s)))) = g"
    using f(1) decodeGroup_pack[OF ok g m] by (simp add: gmv' e'_def[symmetric])
  show "mode_no (eepLoad_nanjg cfg (power_on (eeprom (eepSave c g m s)))) =
           (if c AND 0x80 \<noteq> 0 then getNextMode cfg g m else m)"
    using f(2) decodeMode_pack[OF ok g m] decodeGroup_pack[OF ok g m]
    by (simp add: gmv' cv e'_def[symmetric])
  show "shortClicks (eepLoad_nanjg cfg (power_on (eeprom (eepSave c g m s)))) =
           (if c AND 0x80 \<noteq> 0 then (c AND 0x7f) + 1 else c AND 0x7f)"
    using f(3) by (simp add: cv e'_def[symmetric])
qed

text \<open>
  The one-byte log of v1.0: the scan of \<^verbatim>\<open>getmode\<close> stops at the first byte that is
  not erased, and \<^verbatim>\<open>getmode\<close> decodes that byte.
\<close>

lemma v1_scan_found_gen:
  assumes "length a = 32" and "q < 32" and "\<forall>i<q. a ! i = 0xff" and "a ! q \<noteq> 0xff"
  shows "unat pos = k \<Longrightarrow> k \<le> q \<Longrightarrow> getmode_scan a pos = Inr (of_nat q)"
proof (induction "q - k" arbitrary: pos k)
  case 0
  then have kq: "unat pos = q" by simp
  have "of_nat (unat pos) = pos" by simp
  then have pp: "pos = of_nat q" by (simp only: kq)
  have r: "array_read a (unat pos) = Inr (a ! q)"
    using assms(1,2) kq by (simp add: array_read_def)
  have "getmode_scan a pos =
      (case array_read a (unat pos) of
         Inl err \<Rightarrow> Inl err
       | Inr b \<Rightarrow> if b = 0xff \<and> pos < 32 then getmode_scan a (pos + 1) else Inr pos)"
    by (rule getmode_scan.simps)
  also have "\<dots> = Inr pos" unfolding r using assms(4) by simp
  finally show ?case using pp by simp
next
  case (Suc d)
  then have lt: "k < q" by simp
  have k32: "unat pos < 32" using lt assms(2) Suc.prems by simp
  then have p32: "pos < 32" by (simp add: word_less_nat_alt)
  have r: "array_read a (unat pos) = Inr 0xff"
    using assms(1,3) lt k32 Suc.prems by (simp add: array_read_def)
  have u: "unat (pos + 1) = Suc k"
    using k32 Suc.prems by (simp add: unat_word_ariths)
  have d: "d = q - Suc k" using Suc.hyps(2) by simp
  have "getmode_scan a pos = getmode_scan a (pos + 1)"
    by (subst getmode_scan.simps) (simp only: r p32 sum.case simp_thms if_True)
  also have "\<dots> = Inr (of_nat q)"
    using Suc.hyps(1)[OF d u] lt by simp
  finally show ?case .
qed

lemma v1_scan_found:
  assumes "length a = 32" and "q < 32" and "\<forall>i<q. a ! i = 0xff" and "a ! q \<noteq> 0xff"
  shows "getmode_scan a 0 = Inr (of_nat q)"
  using v1_scan_found_gen[OF assms, of 0 0] by simp

lemma newpos_v1_unat: "unat (((x::byte) + 1) AND 31) = (unat x + 1) mod 32"
proof -
  have "unat (x + 1) = (unat x + 1) mod 256" by (simp add: unat_word_ariths)
  then have "unat ((x + 1) AND 31) = (unat x + 1) mod 256 mod 32" by (simp only: and31_unat)
  also have "\<dots> = (unat x + 1) mod 32" by (simp add: mod_mod_cancel)
  finally show ?thesis .
qed

lemma eepSave_v1_eeprom:
  assumes p: "unat (eepos_v1 s) < 32" and oe: "\<forall>a. a \<noteq> unat (eepos_v1 s) \<longrightarrow> eeprom_v1 s a = 0xff"
  shows "eeprom_v1 (eepSave_v1 b s) = erased((unat (eepos_v1 s) + 1) mod 32 := b)"
    and "group_v1 (eepSave_v1 b s) = group_v1 s" and "mode_v1 (eepSave_v1 b s) = mode_v1 s"
proof -
  define old where "old = unat (eepos_v1 s)"
  define new where "new = (old + 1) mod 32"
  have d: "new \<noteq> old" using p by (simp add: new_def old_def mod_if)
  have n: "unat ((eepos_v1 s + 1) AND 31) = new"
    by (simp only: newpos_v1_unat new_def old_def)
  have "eeprom_v1 (eepSave_v1 b s) a = (erased(new := b)) a" for a
    unfolding eepSave_v1_def Let_def n old_def[symmetric]
    using d oe by (simp add: eep_write_only_def eep_erase_only_def erased_def old_def)
  then show "eeprom_v1 (eepSave_v1 b s) = erased((unat (eepos_v1 s) + 1) mod 32 := b)"
    unfolding new_def old_def by (rule ext)
  show "group_v1 (eepSave_v1 b s) = group_v1 s" "mode_v1 (eepSave_v1 b s) = mode_v1 s"
    by (simp_all add: eepSave_v1_def Let_def)
qed

lemma getmode_found:
  assumes "q < 32" and "b \<noteq> 0xff"
  shows "\<exists>r. getmode cfg (power_on_v1 (erased(q := b)) n) = Inr r \<and>
           group_v1 r = getmode_group_v1 cfg b \<and>
           mode_v1 r = (if b AND 0x80 \<noteq> 0
                        then getNextMode_v1 cfg (getmode_group_v1 cfg b) (getmode_mode_v1 cfg b)
                        else getmode_mode_v1 cfg b)"
proof -
  define a where "a = map (erased(q := b)) [0..<32]"
  have l: "length a = 32" by (simp add: a_def)
  have aq: "a ! q = b" using assms(1) by (simp add: a_def)
  have bf: "\<forall>i<q. a ! i = 0xff" using assms(1) by (simp add: a_def erased_def)
  have sc: "getmode_scan a 0 = Inr (of_nat q)"
    using l assms(1) bf by (rule v1_scan_found) (simp add: aq assms(2))
  have u: "unat (of_nat q :: byte) = q" using assms(1) by (simp add: unat_of_nat)
  have r: "array_read a q = Inr b"
    using assms(1) l by (simp add: array_read_def aq)
  show ?thesis
    by (simp add: getmode_def power_on_v1_def Let_def a_def[symmetric] sc u r
        eepSave_v1_def)
qed


text \<open>
  Claim C6, as stated, fails: the tally 127 with the short-on marker set is packed into
  the byte \<open>0x7f | 0x80 = 0xff\<close>, which is the erased value, so the record is not read
  back. \<^verbatim>\<open>eepLoad\<close> of the Nanjg source itself writes this record: a boot from the
  record \<open>(0xfe, 0x01)\<close> (tally 126, marker set, group 0, mode 1) resolves tally 127,
  group 0 and mode 2 and appends them with the marker; the first byte of the new slot
  stays erased and only the group/mode byte \<open>0x02\<close> at address 3 is stored. The next
  boot stops its scan at that byte and takes it for the tally byte: it decodes tally 2
  without marker, and group 1 and mode 7 from the erased cell behind it.
\<close>

theorem tally_127_not_read_back:
  "shortClicks (eepLoad_nanjg nanjg_config (power_on (erased(0 := 0xfe, 1 := 0x01)))) = 127 \<and>
   group_no (eepLoad_nanjg nanjg_config (power_on (erased(0 := 0xfe, 1 := 0x01)))) = 0 \<and>
   mode_no (eepLoad_nanjg nanjg_config (power_on (erased(0 := 0xfe, 1 := 0x01)))) = 2 \<and>
   (127::byte) OR 0x80 = 0xff \<and>
   eeprom (eepLoad_nanjg nanjg_config (power_on (erased(0 := 0xfe, 1 := 0x01))))
     = erased(3 := packGroupMode 0 2) \<and>
   shortClicks (eepLoad_nanjg nanjg_config (power_on
     (eeprom (eepLoad_nanjg nanjg_config (power_on (erased(0 := 0xfe, 1 := 0x01))))))) = 2 \<and>
   group_no (eepLoad_nanjg nanjg_config (power_on
     (eeprom (eepLoad_nanjg nanjg_config (power_on (erased(0 := 0xfe, 1 := 0x01))))))) = 1 \<and>
   mode_no (eepLoad_nanjg nanjg_config (power_on
     (eeprom (eepLoad_nanjg nanjg_config (power_on (erased(0 := 0xfe, 1 := 0x01))))))) = 7"
proof -
  define e0 where "e0 = erased(0 := 0xfe, 1 := (0x01::byte))"
  define e1 where "e1 = erased(3 := (0x02::byte))"
  have h0: "(0::nat) \<le> 30" "\<forall>a<0. e0 a = 0xff" "e0 0 \<noteq> 0xff"
    by (simp_all add: e0_def)
  have v0: "e0 0 = 0xfe" "e0 (0 + 1) = 1" by (simp_all add: e0_def)
  have d0: "decodeGroup nanjg_config 1 = 0" "decodeMode nanjg_config 1 = 1"
    "getNextMode nanjg_config 0 1 = 2"
    by (simp_all add: decodeGroup_def decodeMode_def getNextMode_def nanjg_config_def
        pgm_read_byte_def Let_def)
  note n0 = eepLoad_nanjg_found[OF h0, of nanjg_config]
  have r0: "group_no (eepLoad_nanjg nanjg_config (power_on e0)) = 0"
    "mode_no (eepLoad_nanjg nanjg_config (power_on e0)) = 2"
    "shortClicks (eepLoad_nanjg nanjg_config (power_on e0)) = 127"
    using n0(1-3) unfolding v0 d0 by simp_all
  have sc0: "eepLoad_scan e0 0 [] = (0, 0xfe, [0])"
    by (simp add: scan_stop e0_def)
  have v0': "e0 (Suc 0) = 1" by (simp add: e0_def)
  have "eeprom (eepLoad_nanjg nanjg_config (power_on e0))
      = eeprom (eepSave 0xff 0 2 (power_on e0))"
    by (simp add: eepLoad_nanjg_def power_on_def sc0 Let_def eepReadByte_def v0' d0 eepSave_def)
  also have "\<dots> = e1"
    by (rule ext)
      (simp add: eepSave_def power_on_def Let_def e0_def e1_def eep_write_only_def
        eep_erase_only_def packGroupMode_def erased_def)
  finally have w: "eeprom (eepLoad_nanjg nanjg_config (power_on e0)) = e1" .
  have h1: "(3::nat) \<le> 30" "\<forall>a<3. e1 a = 0xff" "e1 3 \<noteq> 0xff"
    by (simp_all add: e1_def erased_def)
  have v1: "e1 3 = 2" "e1 (3 + 1) = 0xff" by (simp_all add: e1_def erased_def)
  have d1: "decodeGroup nanjg_config 0xff = 1" "decodeMode nanjg_config 0xff = 7"
    by (simp_all add: decodeGroup_def decodeMode_def nanjg_config_def)
  note n1 = eepLoad_nanjg_found[OF h1, of nanjg_config]
  have r1: "group_no (eepLoad_nanjg nanjg_config (power_on e1)) = 1"
    "mode_no (eepLoad_nanjg nanjg_config (power_on e1)) = 7"
    "shortClicks (eepLoad_nanjg nanjg_config (power_on e1)) = 2"
    using n1(1-3) unfolding v1 d1 by simp_all
  have p: "erased(3 := packGroupMode 0 2) = e1" by (simp add: e1_def packGroupMode_def)
  have o: "(127::byte) OR 0x80 = 0xff" by simp
  show ?thesis
    unfolding e0_def[symmetric] w p using r0 r1 o by simp
qed

text \<open>
  Claim C6, amended. For every group index below \<^verbatim>\<open>GROUPS_COUNT\<close>, mode index below
  \<^verbatim>\<open>MODES_COUNT\<close>, tally of at most 127 and short flag, except the tally 127 with the
  flag set: the first byte \<open>c\<close> of the record (\<open>t | 0x80\<close> with the flag, \<open>t\<close>
  without) is not the erased value and holds the tally in its low seven bits and the flag
  in bit 7; and when \<^verbatim>\<open>eepSave(c, g, m)\<close> appends the record to a log that is in
  order (the position is even and inside the log, all cells outside the current slot are
  erased), the scan of the next boot stops at the new slot with \<open>c\<close>, the second byte
  decodes to \<open>g\<close> and \<open>m\<close>, and \<^verbatim>\<open>eepLoad\<close> resolves group \<open>g\<close>, the mode
  \<open>m\<close> (its next mode when the flag is set) and the tally \<open>t\<close> (plus one when the flag
  is set). For the one-byte record of v1.0 (at most 8 modes) the same holds for group,
  mode and flag through \<^verbatim>\<open>eepSave\<close> and \<^verbatim>\<open>getmode\<close>, unless the record byte
  \<open>codeGroupAndMode(g, m) | 0x80\<close> is the erased value (group 15, mode 7, flag set).
\<close>

theorem saved_record_read_back:
  assumes "config_ok cfg"
    and "unat g < GROUPS_COUNT cfg" and "unat m < MODES_COUNT cfg" and "unat t \<le> 127"
    and "\<not> (t = 127 \<and> f)"
    and "c = (if f then t OR 0x80 else t)"
    and "b = (if f then codeGroupAndMode g m OR 0x80 else codeGroupAndMode g m)"
  shows "c \<noteq> 0xff \<and> c AND 0x7f = t \<and> (c AND 0x80 \<noteq> 0) = f \<and>
         (unat (eepos s) < 32 \<and> even (unat (eepos s)) \<and>
          others_erased (eeprom s) (unat (eepos s)) \<longrightarrow>
            eepLoad_scan (eeprom (eepSave c g m s)) 0 []
              = (eepos (eepSave c g m s), c, [0..<Suc (unat (eepos (eepSave c g m s)))]) \<and>
            decodeGroup cfg (eeprom (eepSave c g m s) (unat (eepos (eepSave c g m s)) + 1)) = g \<and>
            decodeMode cfg (eeprom (eepSave c g m s) (unat (eepos (eepSave c g m s)) + 1)) = m \<and>
            group_no (eepLoad_nanjg cfg (power_on (eeprom (eepSave c g m s)))) = g \<and>
            mode_no (eepLoad_nanjg cfg (power_on (eeprom (eepSave c g m s))))
              = (if f then getNextMode cfg g m else m) \<and>
            shortClicks (eepLoad_nanjg cfg (power_on (eeprom (eepSave c g m s))))
              = (if f then t + 1 else t)) \<and>
         (MODES_COUNT cfg \<le> 8 \<and> b \<noteq> 0xff \<and> unat (eepos_v1 s1) < 32 \<and>
          (\<forall>a. a \<noteq> unat (eepos_v1 s1) \<longrightarrow> eeprom_v1 s1 a = 0xff) \<longrightarrow>
            (\<exists>r. getmode cfg (power_on_v1 (eeprom_v1 (eepSave_v1 b s1)) n) = Inr r \<and>
                  group_v1 r = g \<and>
                  mode_v1 r = (if f then getNextMode_v1 cfg g m else m)))"
proof -
  note tb = tally_byte_bits[OF assms(4)]
  have c1: "c \<noteq> 0xff" using assms(5,6) tb(5,6) by auto
  have c2: "c AND 0x7f = t" using assms(6) tb(1,2) by auto
  have c3: "(c AND 0x80 \<noteq> 0) = f" using assms(6) tb(3,4) by auto
  have N: "eepLoad_scan (eeprom (eepSave c g m s)) 0 []
              = (eepos (eepSave c g m s), c, [0..<Suc (unat (eepos (eepSave c g m s)))]) \<and>
            decodeGroup cfg (eeprom (eepSave c g m s) (unat (eepos (eepSave c g m s)) + 1)) = g \<and>
            decodeMode cfg (eeprom (eepSave c g m s) (unat (eepos (eepSave c g m s)) + 1)) = m \<and>
            group_no (eepLoad_nanjg cfg (power_on (eeprom (eepSave c g m s)))) = g \<and>
            mode_no (eepLoad_nanjg cfg (power_on (eeprom (eepSave c g m s))))
              = (if f then getNextMode cfg g m else m) \<and>
            shortClicks (eepLoad_nanjg cfg (power_on (eeprom (eepSave c g m s))))
              = (if f then t + 1 else t)"
    if h: "unat (eepos s) < 32 \<and> even (unat (eepos s)) \<and>
          others_erased (eeprom s) (unat (eepos s))"
  proof -
    from h have p: "unat (eepos s) < 32" "even (unat (eepos s))"
      and oe: "others_erased (eeprom s) (unat (eepos s))" by simp_all
    note bs = boot_after_save[OF assms(1) p oe assms(2,3) c1]
    from bs(1-4) bs(5,6)[unfolded c2 c3] show ?thesis by simp
  qed
  have V: "\<exists>r. getmode cfg (power_on_v1 (eeprom_v1 (eepSave_v1 b s1)) n) = Inr r \<and>
                  group_v1 r = g \<and>
                  mode_v1 r = (if f then getNextMode_v1 cfg g m else m)"
    if h: "MODES_COUNT cfg \<le> 8 \<and> b \<noteq> 0xff \<and> unat (eepos_v1 s1) < 32 \<and>
          (\<forall>a. a \<noteq> unat (eepos_v1 s1) \<longrightarrow> eeprom_v1 s1 a = 0xff)"
  proof -
    from h have mc: "MODES_COUNT cfg \<le> 8" and bn: "b \<noteq> 0xff" and p: "unat (eepos_v1 s1) < 32"
      and oe: "\<forall>a. a \<noteq> unat (eepos_v1 s1) \<longrightarrow> eeprom_v1 s1 a = 0xff" by simp_all
    note d = v1_byte_decodes[OF assms(1) mc assms(2,3)]
    have q: "(unat (eepos_v1 s1) + 1) mod 32 < 32" by simp
    have bg: "getmode_group_v1 cfg b = g" "getmode_mode_v1 cfg b = m" "(b AND 0x80 \<noteq> 0) = f"
      using assms(7) d by auto
    from getmode_found[OF q bn, of cfg n] show ?thesis
      unfolding eepSave_v1_eeprom(1)[OF p oe] bg .
  qed
  from c1 c2 c3 N V show ?thesis by blast
qed

theorem saved_record_read_back_witness:
  "config_ok nanjg_config \<and> unat (1::byte) < GROUPS_COUNT nanjg_config \<and>
   unat (3::byte) < MODES_COUNT nanjg_config \<and> unat (15::byte) \<le> 127 \<and> (15::byte) \<noteq> 127 \<and>
   unat (eepos (power_on erased)) < 32 \<and> even (unat (eepos (power_on erased))) \<and>
   others_erased (eeprom (power_on erased)) (unat (eepos (power_on erased))) \<and>
   MODES_COUNT nanjg_config \<le> 8 \<and> (0x8b::byte) \<noteq> 0xff \<and>
   unat (eepos_v1 (power_on_v1 erased 0)) < 32 \<and>
   (0x8f::byte) = 15 OR 0x80 \<and> (0x8b::byte) = codeGroupAndMode 1 3 OR 0x80 \<and>
   eepLoad_scan (eeprom (eepSave 0x8f 1 3 (power_on erased))) 0 [] = (2, 0x8f, [0, 1, 2]) \<and>
   group_no (eepLoad_nanjg nanjg_config (power_on (eeprom (eepSave 0x8f 1 3 (power_on erased))))) = 1 \<and>
   mode_no (eepLoad_nanjg nanjg_config (power_on (eeprom (eepSave 0x8f 1 3 (power_on erased))))) = 4 \<and>
   shortClicks (eepLoad_nanjg nanjg_config (power_on (eeprom (eepSave 0x8f 1 3 (power_on erased))))) = 16 \<and>
   (\<exists>r. getmode nanjg_config (power_on_v1 (eeprom_v1 (eepSave_v1 0x8b (power_on_v1 erased 0))) 0)
          = Inr r \<and> group_v1 r = 1 \<and> mode_v1 r = 4)"
proof -
  define s0 where "s0 = power_on erased"
  define s1 where "s1 = power_on_v1 erased 0"
  have h: "config_ok nanjg_config" "unat (1::byte) < GROUPS_COUNT nanjg_config"
    "unat (3::byte) < MODES_COUNT nanjg_config" "unat (15::byte) \<le> 127"
    "\<not> ((15::byte) = 127 \<and> True)"
    by (simp_all add: config_ok_def nanjg_config_def)
  have c: "(0x8f::byte) = (if True then 15 OR 0x80 else 15)"
    and b: "(0x8b::byte) = (if True then codeGroupAndMode 1 3 OR 0x80 else codeGroupAndMode 1 3)"
    by (simp_all add: codeGroupAndMode_def)
  have l: "unat (eepos s0) < 32" "even (unat (eepos s0))"
    "others_erased (eeprom s0) (unat (eepos s0))"
    by (simp_all add: s0_def power_on_def others_erased_def erased_def)
  have v: "MODES_COUNT nanjg_config \<le> 8" "(0x8b::byte) \<noteq> 0xff" "unat (eepos_v1 s1) < 32"
    "\<forall>a. a \<noteq> unat (eepos_v1 s1) \<longrightarrow> eeprom_v1 s1 a = 0xff"
    by (simp_all add: nanjg_config_def s1_def power_on_v1_def erased_def)
  have nx: "getNextMode nanjg_config 1 3 = 4" "getNextMode_v1 nanjg_config 1 3 = 4"
    by (simp_all add: getNextMode_def getNextMode_v1_def nanjg_config_def pgm_read_byte_def
        Let_def STROBE_def)
  have ep: "eepos (eepSave 0x8f 1 3 s0) = 2" "[0..<Suc (unat (2::byte))] = [0, 1, 2]"
    by (simp_all add: eepSave_eepos s0_def power_on_def upt_rec)
  note t = saved_record_read_back[OF h c b, of s0 s1 0]
  have n0: "eepLoad_scan (eeprom (eepSave 0x8f 1 3 s0)) 0 []
        = (eepos (eepSave 0x8f 1 3 s0), 0x8f, [0..<Suc (unat (eepos (eepSave 0x8f 1 3 s0)))])"
    using t l by blast
  have n1: "group_no (eepLoad_nanjg nanjg_config (power_on (eeprom (eepSave 0x8f 1 3 s0)))) = 1"
    using t l by blast
  have n2: "mode_no (eepLoad_nanjg nanjg_config (power_on (eeprom (eepSave 0x8f 1 3 s0))))
        = (if True then getNextMode nanjg_config 1 3 else 3)"
    using t l by blast
  have n3: "shortClicks (eepLoad_nanjg nanjg_config (power_on (eeprom (eepSave 0x8f 1 3 s0))))
        = (if True then 15 + 1 else 15)"
    using t l by blast
  have v1: "\<exists>r. getmode nanjg_config (power_on_v1 (eeprom_v1 (eepSave_v1 0x8b s1)) 0) = Inr r \<and>
        group_v1 r = 1 \<and> mode_v1 r = (if True then getNextMode_v1 nanjg_config 1 3 else 3)"
    using t v by blast
  have n0': "eepLoad_scan (eeprom (eepSave 0x8f 1 3 s0)) 0 [] = (2, 0x8f, [0, 1, 2])"
    using n0 unfolding ep .
  have n2': "mode_no (eepLoad_nanjg nanjg_config (power_on (eeprom (eepSave 0x8f 1 3 s0)))) = 4"
    using n2 by (simp add: nx)
  have n3': "shortClicks (eepLoad_nanjg nanjg_config (power_on (eeprom (eepSave 0x8f 1 3 s0)))) = 16"
    using n3 by simp
  have v1': "\<exists>r. getmode nanjg_config (power_on_v1 (eeprom_v1 (eepSave_v1 0x8b s1)) 0) = Inr r \<and>
        group_v1 r = 1 \<and> mode_v1 r = 4"
    using v1 by (simp add: nx)
  have c': "(0x8f::byte) = 15 OR 0x80" "(0x8b::byte) = codeGroupAndMode 1 3 OR 0x80"
    "(15::byte) \<noteq> 127"
    using c b by simp_all
  from h(1-4) c' l v(1-3) n0' n1 n2' n3' v1' show ?thesis
    unfolding s0_def s1_def by blast
qed

section \<open>Low-battery step-down\<close>

lemma unat_half_plus3: "unat (drop_bit 1 (v::byte) + 3) = unat v div 2 + 3"
proof -
  have "unat (drop_bit 1 v) = drop_bit 1 (unat v)"
    by (simp only: unat_drop_bit_eq)
  then have h: "unat (drop_bit 1 v) = unat v div 2"
    by (simp only: drop_bit_eq_div) simp
  have "unat v < 256" using unsigned_less[of v] by simp
  then have b: "unat v div 2 + 3 < 256" by simp
  have "unat (drop_bit 1 v + 3) = (unat (drop_bit 1 v) + unat (3::byte)) mod 256"
    by (simp only: unat_word_ariths) simp
  also have "\<dots> = (unat v div 2 + 3) mod 256"
    by (simp only: h) simp
  also have "\<dots> = unat v div 2 + 3"
    using b by simp
  finally show ?thesis .
qed

lemma stepdown_le:
  assumes "6 \<le> unat (v::byte)"
  shows "drop_bit 1 v + 3 \<le> v" and "6 \<le> unat (drop_bit 1 v + 3)"
  unfolding word_le_nat_alt unat_half_plus3 using assms by simp_all

lemma battmon_low:
  assumes "x < BATTMON"
  shows "battmon_step x (v, c) = (if c + 1 > 8 then (drop_bit 1 v + 3, 0) else (v, c + 1))"
  using assms by (simp add: battmon_step_def Let_def)

lemma battmon_ok: "\<not> x < BATTMON \<Longrightarrow> battmon_step x (v, c) = (v, 0)"
  by (simp add: battmon_step_def)

lemma loop_nanjg_append: "loop_nanjg (xs @ ys) pc = loop_nanjg ys (loop_nanjg xs pc)"
  by (induction xs arbitrary: pc) simp_all

lemma loop_nanjg_low_count:
  "\<forall>x\<in>set vs. x < BATTMON \<Longrightarrow> k + length vs \<le> 8 \<Longrightarrow>
     loop_nanjg vs (v, of_nat k) = (v, of_nat (k + length vs))"
proof (induction vs arbitrary: k)
  case Nil
  then show ?case by simp
next
  case (Cons x vs)
  then have x: "x < BATTMON" and k: "Suc k \<le> 8" by simp_all
  have u: "unat (of_nat k + 1 :: byte) = k + 1" using k by (simp add: unat_of_nat unat_word_ariths)
  have "\<not> (of_nat k + 1 :: byte) > 8" using u k by (simp add: word_less_nat_alt)
  then have "battmon_step x (v, of_nat k) = (v, of_nat (Suc k))"
    using battmon_low[OF x, of v "of_nat k"] by simp
  then show ?case using Cons.IH[of "Suc k"] Cons.prems by simp
qed

lemma loop_nanjg_nine_low:
  assumes "length vs = 9" and "\<forall>x\<in>set vs. x < BATTMON"
  shows "loop_nanjg vs (v, 0) = (drop_bit 1 v + 3, 0)"
proof -
  define xs where "xs = butlast vs"
  define y where "y = last vs"
  have ne: "vs \<noteq> []" using assms(1) by auto
  have vs: "vs = xs @ [y]" and l: "length xs = 8"
    using ne assms(1) by (simp_all add: xs_def y_def)
  have lo: "\<forall>x\<in>set xs. x < BATTMON" and y: "y < BATTMON" using assms(2) vs by simp_all
  have "loop_nanjg xs (v, 0) = (v, 8)"
    using loop_nanjg_low_count[OF lo, of 0 v] l by simp
  moreover have "battmon_step y (v, 8) = (drop_bit 1 v + 3, 0)"
    using battmon_low[OF y, of v 8] by simp
  ultimately show ?thesis by (simp add: vs loop_nanjg_append)
qed


lemma byte_cases8:
  assumes "unat (x::byte) < 8"
  shows "x = 0 \<or> x = 1 \<or> x = 2 \<or> x = 3 \<or> x = 4 \<or> x = 5 \<or> x = 6 \<or> x = 7"
proof -
  have x: "x = of_nat (unat x)" by simp
  have "unat x = 0 \<or> unat x = 1 \<or> unat x = 2 \<or> unat x = 3 \<or> unat x = 4 \<or>
        unat x = 5 \<or> unat x = 6 \<or> unat x = 7"
    using assms by arith
  then show ?thesis
    by (elim disjE) (subst x, simp)+
qed

lemma nanjg_start_values:
  assumes "unat g < GROUPS_COUNT nanjg_config" "unat m < effective_length nanjg_config g"
    and "switch_nanjg (pgm_read_byte nanjg_config g m) = Pwm v"
  shows "6 \<le> unat v"
proof -
  have g: "g = 0 \<or> g = 1"
    using assms(1) byte_cases8[of g] by (auto simp add: nanjg_config_def)
  have el: "effective_length nanjg_config g \<le> 8"
    using g by (auto simp add: effective_length_def nanjg_config_def)
  then have "unat m < 8" using assms(2) by simp
  from byte_cases8[OF this] g assms(2,3) show ?thesis
    by (auto simp add: effective_length_def nanjg_config_def pgm_read_byte_def switch_nanjg_def
        STROBE_def PSTROBE_def SOS_def split: if_splits)
qed

lemma v1_start_values:
  assumes "unat g < GROUPS_COUNT v1_config" "unat m < effective_length v1_config g"
    and "switch_nanjg (pgm_read_byte v1_config g m) = Pwm v"
  shows "6 \<le> unat v"
proof -
  have g: "g = 0 \<or> g = 1"
    using assms(1) byte_cases8[of g] by (auto simp add: v1_config_def)
  have el: "effective_length v1_config g \<le> 8"
    using g by (auto simp add: effective_length_def v1_config_def)
  then have "unat m < 8" using assms(2) by simp
  from byte_cases8[OF this] g assms(2,3) show ?thesis
    by (auto simp add: effective_length_def v1_config_def pgm_read_byte_def switch_nanjg_def
        STROBE_def PSTROBE_def SOS_def split: if_splits)
qed

lemma reachable_nanjg_ge6: "reachable_nanjg nanjg_config v \<Longrightarrow> 6 \<le> unat v"
proof (induction rule: reachable_nanjg.induct)
  case (start g m v)
  then show ?case by (rule nanjg_start_values)
next
  case (lowbatt v)
  then show ?case by (intro stepdown_le(2))
qed

lemma reachable_v1_ge6: "reachable_nanjg v1_config v \<Longrightarrow> 6 \<le> unat v"
proof (induction rule: reachable_nanjg.induct)
  case (start g m v)
  then show ?case by (rule v1_start_values)
next
  case (lowbatt v)
  then show ?case by (intro stepdown_le(2))
qed

lemma battmon_step_fst:
  "fst (battmon_step x (v, c)) = v \<or> fst (battmon_step x (v, c)) = drop_bit 1 v + 3"
  by (simp add: battmon_step_def Let_def)

text \<open>
  The value with which \<^verbatim>\<open>main\<close> of the Nanjg source enters the default branch of the
  switch is reachable when the resolved mode is a selectable one, and the loop keeps the
  value inside the reachable set.
\<close>

lemma main_nanjg_reachable:
  assumes "display_mode (main_nanjg cfg e v) = Pwm p"
    and "unat (group_no (eepLoad_nanjg cfg (power_on e))) < GROUPS_COUNT cfg"
    and "unat (mode_no (eepLoad_nanjg cfg (power_on e)))
           < effective_length cfg (group_no (eepLoad_nanjg cfg (power_on e)))"
  shows "reachable_nanjg cfg p"
  using assms(1) unfolding main_nanjg_fields
  by (rule reachable_nanjg.start[OF assms(2,3)])

lemma loop_nanjg_reachable:
  "reachable_nanjg cfg v \<Longrightarrow> reachable_nanjg cfg (fst (loop_nanjg vs (v, c)))"
proof (induction vs arbitrary: v c)
  case Nil
  then show ?case by simp
next
  case (Cons x vs)
  obtain v' c' where b: "battmon_step x (v, c) = (v', c')"
    by (cases "battmon_step x (v, c)")
  have "v' = v \<or> v' = drop_bit 1 v + 3"
    using battmon_step_fst[of x v c] b by simp
  then have "reachable_nanjg cfg v'"
    using Cons.prems reachable_nanjg.lowbatt[OF Cons.prems] by blast
  from Cons.IH[OF this, of c'] show ?case by (simp add: b)
qed

text \<open>
  On the Nanjg board and in v1.0 the output value is an unsigned PWM duty. In the display
  loop, nine consecutive battery samples below the threshold (more than eight), counted
  from a debounce counter of 0, step the output value down to \<open>(v >> 1) + 3\<close> and reset
  the counter to 0; eight do not change the value. A sample that is not below the
  threshold resets the counter and leaves the value as it is. The step-down produces a
  value that is not larger exactly for the values from 5 upwards; every output value that
  is reachable from a selectable mode of the two tables is at least 6, so no iteration
  increases the value.
\<close>

lemma lowbatt_stepdown_unsigned:
  "(length vs = 8 \<and> (\<forall>x\<in>set vs. x < BATTMON) \<longrightarrow> loop_nanjg vs (v, 0) = (v, 8)) \<and>
   (length vs = 9 \<and> (\<forall>x\<in>set vs. x < BATTMON) \<longrightarrow>
      loop_nanjg vs (v, 0) = (drop_bit 1 v + 3, 0)) \<and>
   (\<not> x < BATTMON \<longrightarrow> battmon_step x (v, c) = (v, 0)) \<and>
   (reachable_nanjg nanjg_config v \<or> reachable_nanjg v1_config v
      \<longrightarrow> drop_bit 1 v + 3 \<le> v \<and> fst (battmon_step x (v, c)) \<le> v) \<and>
   (drop_bit 1 v + 3 \<le> v) = (5 \<le> unat v)"
proof (intro conjI impI)
  show "(drop_bit 1 v + 3 \<le> v) = (5 \<le> unat v)"
    unfolding word_le_nat_alt unat_half_plus3 by arith
next
  assume "length vs = 8 \<and> (\<forall>x\<in>set vs. x < BATTMON)"
  then show "loop_nanjg vs (v, 0) = (v, 8)"
    using loop_nanjg_low_count[of vs 0 v] by simp
next
  assume "length vs = 9 \<and> (\<forall>x\<in>set vs. x < BATTMON)"
  then show "loop_nanjg vs (v, 0) = (drop_bit 1 v + 3, 0)"
    using loop_nanjg_nine_low[of vs v] by simp
next
  assume "\<not> x < BATTMON"
  then show "battmon_step x (v, c) = (v, 0)" by (rule battmon_ok)
next
  assume r: "reachable_nanjg nanjg_config v \<or> reachable_nanjg v1_config v"
  then have "6 \<le> unat v"
    using reachable_nanjg_ge6 reachable_v1_ge6 by blast
  then have le: "drop_bit 1 v + 3 \<le> v" by (rule stepdown_le(1))
  then show "drop_bit 1 v + 3 \<le> v" .
  from le battmon_step_fst[of x v c] show "fst (battmon_step x (v, c)) \<le> v" by auto
qed

lemma replicate_unfold: "replicate (numeral k) x = x # replicate (pred_numeral k) x"
  by (simp add: numeral_eq_Suc)

lemma a17_low_steps:
  "loop_a17 (replicate 8 100) \<lparr> pmode = 253, lowbattCounter = 0, turboTicks = 0 \<rparr>
     = \<lparr> pmode = 253, lowbattCounter = 8, turboTicks = 8 \<rparr>"
  "loop_a17 (replicate 9 100) \<lparr> pmode = 253, lowbattCounter = 0, turboTicks = 0 \<rparr>
     = \<lparr> pmode = 129, lowbattCounter = 0, turboTicks = 9 \<rparr>"
  "loop_a17 (replicate 18 100) \<lparr> pmode = 253, lowbattCounter = 0, turboTicks = 0 \<rparr>
     = \<lparr> pmode = 67, lowbattCounter = 0, turboTicks = 18 \<rparr>"
  by (simp_all add: replicate_unfold loop_body_a17_def battmon_step_def turbo_step_def BATTMON_def
      TURBO_TIMEOUT_def Let_def)

text \<open>
  Claim C9 fails on the A17DD-L board. There the value is a signed channel code that
  \<^verbatim>\<open>setPWM\<close> takes as \<^verbatim>\<open>sbyte\<close>, but the step-down \<open>(pmode >> 1) + 3\<close> is
  computed on the unsigned byte. A boot with an empty store shows mode 0 of group 0, the
  table value \<open>-3\<close>, that is the byte 253, which drives the AMC channel with 7. Eight
  battery samples below the threshold leave it (the debounce counter is 8); the ninth
  sets the byte to \<open>(253 >> 1) + 3 = 129\<close>, that is \<open>-127\<close>, which drives the AMC
  channel with 255; after nine more the byte is \<open>(129 >> 1) + 3 = 67\<close>, which drives
  the FET channel with 135. The output goes up twice where the claim says it never
  increases.
\<close>

theorem lowbatt_stepdown_a17:
  "display_mode (main_a17 a17_config erased cap v) = Pwm 253 \<and>
   loop_a17 (replicate 8 100) \<lparr> pmode = 253, lowbattCounter = 0, turboTicks = 0 \<rparr>
     = \<lparr> pmode = 253, lowbattCounter = 8, turboTicks = 8 \<rparr> \<and>
   loop_a17 (replicate 9 100) \<lparr> pmode = 253, lowbattCounter = 0, turboTicks = 0 \<rparr>
     = \<lparr> pmode = 129, lowbattCounter = 0, turboTicks = 9 \<rparr> \<and>
   loop_a17 (replicate 18 100) \<lparr> pmode = 253, lowbattCounter = 0, turboTicks = 0 \<rparr>
     = \<lparr> pmode = 67, lowbattCounter = 0, turboTicks = 18 \<rparr> \<and>
   (100::byte) < BATTMON \<and>
   sint (253::byte) = - 3 \<and> sint (129::byte) = - 127 \<and>
   setPWM 253 = (0, 7) \<and> setPWM 129 = (0, 255) \<and> setPWM 67 = (135, 0)"
proof -
  have e: "\<forall>a<32. erased a = 0xff" by (simp add: erased_def)
  have m: "display_mode (main_a17 a17_config erased cap v) = Pwm 253"
    unfolding main_a17_fields eepLoad_empty(7,8)[OF e]
    by (simp add: pgm_read_byte_def a17_config_def switch_a17_def STROBE_a17_def
        PSTROBE_a17_def SOS_a17_def)
  have s: "setPWM 253 = (0, 7)" "setPWM 129 = (0, 255)" "setPWM 67 = (135, 0)"
    "sint (253::byte) = - 3" "sint (129::byte) = - 127" "(100::byte) < BATTMON"
    by (simp_all add: setPWM_def BATTMON_def)
  from m s a17_low_steps show ?thesis by simp
qed

section \<open>Turbo timeout\<close>

lemma battmon_step_le63:
  assumes "unat v \<le> 63"
  shows "unat (fst (battmon_step x (v, c))) \<le> 63"
proof -
  have "unat (drop_bit 1 v + 3) \<le> 63"
    unfolding unat_half_plus3 using assms by simp
  then show ?thesis
    using assms battmon_step_fst[of x v c] by auto
qed

lemma loop_body_le63:
  assumes "unat (pmode s) \<le> 63"
  shows "unat (pmode (loop_body_a17 x s)) \<le> 63" and "\<not> turbo_fires x s"
proof -
  obtain p c where b: "battmon_step x (pmode s, lowbattCounter s) = (p, c)"
    by (cases "battmon_step x (pmode s, lowbattCounter s)")
  have p: "unat p \<le> 63"
    using battmon_step_le63[OF assms, of x "lowbattCounter s"] b by simp
  then have ne: "p \<noteq> 127" by auto
  show "unat (pmode (loop_body_a17 x s)) \<le> 63"
    using p ne by (simp add: loop_body_a17_def b turbo_step_def)
  show "\<not> turbo_fires x s"
    using ne by (simp add: turbo_fires_def b)
qed

lemma turbo_count_le63: "unat (pmode s) \<le> 63 \<Longrightarrow> turbo_count vs s = 0"
proof (induction vs arbitrary: s)
  case Nil
  then show ?case by simp
next
  case (Cons x vs)
  from loop_body_le63[OF Cons.prems, of x] Cons.IH[of "loop_body_a17 x s"]
  show ?case by simp
qed

lemma turbo_fires_result:
  assumes "turbo_fires x s"
  shows "pmode (loop_body_a17 x s) = 63"
proof -
  obtain p c where b: "battmon_step x (pmode s, lowbattCounter s) = (p, c)"
    by (cases "battmon_step x (pmode s, lowbattCounter s)")
  from assms have "\<not> turboTicks s < TURBO_TIMEOUT" "p = 127"
    by (simp_all add: turbo_fires_def b)
  then show ?thesis
    by (simp add: loop_body_a17_def b turbo_step_def)
qed

lemma turbo_count_le1: "turbo_count vs s \<le> 1"
proof (induction vs arbitrary: s)
  case Nil
  then show ?case by simp
next
  case (Cons x vs)
  show ?case
  proof (cases "turbo_fires x s")
    case True
    then have "unat (pmode (loop_body_a17 x s)) \<le> 63"
      by (simp add: turbo_fires_result)
    then have "turbo_count vs (loop_body_a17 x s) = 0" by (rule turbo_count_le63)
    then show ?thesis using True by simp
  next
    case False
    then show ?thesis using Cons.IH[of "loop_body_a17 x s"] by simp
  qed
qed

lemma loop_a17_append: "loop_a17 (xs @ ys) s = loop_a17 ys (loop_a17 xs s)"
  by (induction xs arbitrary: s) simp_all

lemma turbo_count_append:
  "turbo_count (xs @ ys) s = turbo_count xs s + turbo_count ys (loop_a17 xs s)"
  by (induction xs arbitrary: s) simp_all

lemma turboTicks_saturated:
  "turboTicks s = TURBO_TIMEOUT \<Longrightarrow> turboTicks (loop_a17 vs s) = TURBO_TIMEOUT"
proof (induction vs arbitrary: s)
  case Nil
  then show ?case by simp
next
  case (Cons x vs)
  have "turboTicks (loop_body_a17 x s) = TURBO_TIMEOUT"
    using Cons.prems
    by (cases "battmon_step x (pmode s, lowbattCounter s)")
      (simp add: loop_body_a17_def turbo_step_def)
  then show ?case using Cons.IH by simp
qed

lemma turbo_before_timeout:
  "\<forall>x\<in>set xs. \<not> x < BATTMON \<Longrightarrow> k + length xs \<le> 60 \<Longrightarrow>
     loop_a17 xs \<lparr> pmode = 127, lowbattCounter = 0, turboTicks = of_nat k \<rparr>
       = \<lparr> pmode = 127, lowbattCounter = 0, turboTicks = of_nat (k + length xs) \<rparr> \<and>
     turbo_count xs \<lparr> pmode = 127, lowbattCounter = 0, turboTicks = of_nat k \<rparr> = 0"
proof (induction xs arbitrary: k)
  case Nil
  then show ?case by simp
next
  case (Cons x xs)
  then have x: "\<not> x < BATTMON" and k: "k < 60" by simp_all
  have u: "unat (of_nat k :: byte) = k" using k by (simp add: unat_of_nat)
  have lt: "(of_nat k :: byte) < TURBO_TIMEOUT"
    using u k by (simp add: word_less_nat_alt TURBO_TIMEOUT_def)
  have b: "loop_body_a17 x \<lparr> pmode = 127, lowbattCounter = 0, turboTicks = of_nat k \<rparr>
      = \<lparr> pmode = 127, lowbattCounter = 0, turboTicks = of_nat (Suc k) \<rparr>"
    using lt by (simp add: loop_body_a17_def battmon_ok[OF x] turbo_step_def)
  have f: "\<not> turbo_fires x \<lparr> pmode = 127, lowbattCounter = 0, turboTicks = of_nat k \<rparr>"
    using lt by (simp add: turbo_fires_def)
  from Cons.IH[of "Suc k"] Cons.prems b f show ?case by simp
qed

lemma loop_a17_le63: "unat (pmode s) \<le> 63 \<Longrightarrow> unat (pmode (loop_a17 vs s)) \<le> 63"
proof (induction vs arbitrary: s)
  case Nil
  then show ?case by simp
next
  case (Cons x vs)
  from loop_body_le63(1)[OF Cons.prems, of x] Cons.IH[of "loop_body_a17 x s"]
  show ?case by simp
qed

lemma loop_body_fields:
  "pmode (loop_body_a17 x s) =
     (if turbo_fires x s then drop_bit 1 127
      else fst (battmon_step x (pmode s, lowbattCounter s)))"
  "lowbattCounter (loop_body_a17 x s) = snd (battmon_step x (pmode s, lowbattCounter s))"
  by (cases "battmon_step x (pmode s, lowbattCounter s)";
      simp add: loop_body_a17_def turbo_step_def turbo_fires_def)+

lemma loop_a17_after_turbo:
  "unat (pmode s) \<le> 63 \<Longrightarrow>
     (pmode (loop_a17 ws s), lowbattCounter (loop_a17 ws s))
       = loop_nanjg ws (pmode s, lowbattCounter s)"
proof (induction ws arbitrary: s)
  case Nil
  then show ?case by simp
next
  case (Cons x ws)
  note b = loop_body_le63[OF Cons.prems, of x]
  have "(pmode (loop_body_a17 x s), lowbattCounter (loop_body_a17 x s))
      = battmon_step x (pmode s, lowbattCounter s)"
    using b(2) by (simp add: loop_body_fields)
  then show ?case using Cons.IH[OF b(1)] by simp
qed

lemma loop_nanjg_not_low:
  "\<forall>x\<in>set ws. \<not> x < BATTMON \<Longrightarrow> fst (loop_nanjg ws (v, c)) = v"
proof (induction ws arbitrary: c)
  case Nil
  then show ?case by simp
next
  case (Cons x ws)
  then have "battmon_step x (v, c) = (v, 0)" by (simp add: battmon_ok)
  then show ?case using Cons by simp
qed

text \<open>
  Claim C8. In every iteration of the display loop of the A17DD-L source the turbo branch
  changes the value only when the timer has run out and the value is the maximum code
  127, and then to \<open>127 >> 1 = 63\<close>; otherwise the value is what the battery check left.
  So in every run the turbo step-down happens at most once, and after it the value and
  the debounce counter develop as in a loop without the turbo branch: with a battery that
  is not low the value stays 63. When the run starts at 127 with the timer at 0 and the
  battery is not low, the value stays 127 during the first 60 iterations, which count the
  timer up to \<^verbatim>\<open>TURBO_TIMEOUT\<close>; the 61st iteration steps the value down to 63;
  whatever the later battery samples are, the step-down does not happen again, although
  the timer stays at \<^verbatim>\<open>TURBO_TIMEOUT\<close> and is never reset.
\<close>

theorem turbo_one_shot:
  "turbo_count vs s \<le> 1 \<and>
   pmode (loop_body_a17 x s) =
     (if turbo_fires x s then drop_bit 1 127
      else fst (battmon_step x (pmode s, lowbattCounter s))) \<and>
   (turbo_fires x s \<longrightarrow>
      pmode (loop_body_a17 x s) = drop_bit 1 127 \<and> turbo_count ws (loop_body_a17 x s) = 0 \<and>
      (pmode (loop_a17 ws (loop_body_a17 x s)), lowbattCounter (loop_a17 ws (loop_body_a17 x s)))
        = loop_nanjg ws (drop_bit 1 127, lowbattCounter (loop_body_a17 x s)) \<and>
      ((\<forall>w\<in>set ws. \<not> w < BATTMON) \<longrightarrow>
         pmode (loop_a17 ws (loop_body_a17 x s)) = drop_bit 1 127)) \<and>
   (length xs = 60 \<and> (\<forall>x\<in>set xs. \<not> x < BATTMON) \<and> \<not> y < BATTMON \<longrightarrow>
      loop_a17 xs \<lparr> pmode = 127, lowbattCounter = 0, turboTicks = 0 \<rparr>
        = \<lparr> pmode = 127, lowbattCounter = 0, turboTicks = TURBO_TIMEOUT \<rparr> \<and>
      turbo_count xs \<lparr> pmode = 127, lowbattCounter = 0, turboTicks = 0 \<rparr> = 0 \<and>
      pmode (loop_a17 (xs @ [y]) \<lparr> pmode = 127, lowbattCounter = 0, turboTicks = 0 \<rparr>)
        = drop_bit 1 127 \<and>
      turbo_count (xs @ y # ws) \<lparr> pmode = 127, lowbattCounter = 0, turboTicks = 0 \<rparr> = 1 \<and>
      turboTicks (loop_a17 (xs @ y # ws) \<lparr> pmode = 127, lowbattCounter = 0, turboTicks = 0 \<rparr>)
        = TURBO_TIMEOUT \<and>
      unat (pmode (loop_a17 (xs @ y # ws) \<lparr> pmode = 127, lowbattCounter = 0, turboTicks = 0 \<rparr>))
        \<le> 63 \<and>
      (pmode (loop_a17 (xs @ y # ws) \<lparr> pmode = 127, lowbattCounter = 0, turboTicks = 0 \<rparr>),
       lowbattCounter (loop_a17 (xs @ y # ws) \<lparr> pmode = 127, lowbattCounter = 0, turboTicks = 0 \<rparr>))
        = loop_nanjg ws (drop_bit 1 127, 0) \<and>
      ((\<forall>w\<in>set ws. \<not> w < BATTMON) \<longrightarrow>
         pmode (loop_a17 (xs @ y # ws) \<lparr> pmode = 127, lowbattCounter = 0, turboTicks = 0 \<rparr>)
           = drop_bit 1 127))"
proof -
  have A: "turbo_count vs s \<le> 1" by (rule turbo_count_le1)
  have B: "pmode (loop_body_a17 x s) =
     (if turbo_fires x s then drop_bit 1 127
      else fst (battmon_step x (pmode s, lowbattCounter s)))"
    by (rule loop_body_fields(1))
  have after: "(pmode (loop_a17 ws t), lowbattCounter (loop_a17 ws t))
        = loop_nanjg ws (drop_bit 1 127, lowbattCounter t) \<and>
      ((\<forall>w\<in>set ws. \<not> w < BATTMON) \<longrightarrow> pmode (loop_a17 ws t) = drop_bit 1 127) \<and>
      turbo_count ws t = 0 \<and> unat (pmode (loop_a17 ws t)) \<le> 63"
    if p: "pmode t = 63" for t
  proof -
    have le: "unat (pmode t) \<le> 63" using p by simp
    have e: "(pmode (loop_a17 ws t), lowbattCounter (loop_a17 ws t))
        = loop_nanjg ws (63, lowbattCounter t)"
      using loop_a17_after_turbo[OF le, of ws] by (simp add: p)
    have "pmode (loop_a17 ws t) = 63" if "\<forall>w\<in>set ws. \<not> w < BATTMON"
    proof -
      have "pmode (loop_a17 ws t) = fst (loop_nanjg ws (63, lowbattCounter t))"
        using e by (metis fst_conv)
      then show ?thesis using loop_nanjg_not_low[OF that] by simp
    qed
    then show ?thesis
      using e turbo_count_le63[OF le, of ws] loop_a17_le63[OF le, of ws] by simp
  qed
  have C: "turbo_fires x s \<longrightarrow>
      pmode (loop_body_a17 x s) = drop_bit 1 127 \<and> turbo_count ws (loop_body_a17 x s) = 0 \<and>
      (pmode (loop_a17 ws (loop_body_a17 x s)), lowbattCounter (loop_a17 ws (loop_body_a17 x s)))
        = loop_nanjg ws (drop_bit 1 127, lowbattCounter (loop_body_a17 x s)) \<and>
      ((\<forall>w\<in>set ws. \<not> w < BATTMON) \<longrightarrow>
         pmode (loop_a17 ws (loop_body_a17 x s)) = drop_bit 1 127)"
  proof
    assume f: "turbo_fires x s"
    then have p: "pmode (loop_body_a17 x s) = 63" by (rule turbo_fires_result)
    from after[OF p] p show "pmode (loop_body_a17 x s) = drop_bit 1 127 \<and>
      turbo_count ws (loop_body_a17 x s) = 0 \<and>
      (pmode (loop_a17 ws (loop_body_a17 x s)), lowbattCounter (loop_a17 ws (loop_body_a17 x s)))
        = loop_nanjg ws (drop_bit 1 127, lowbattCounter (loop_body_a17 x s)) \<and>
      ((\<forall>w\<in>set ws. \<not> w < BATTMON) \<longrightarrow>
         pmode (loop_a17 ws (loop_body_a17 x s)) = drop_bit 1 127)"
      by simp
  qed
  define s0 where "s0 = \<lparr> pmode = 127, lowbattCounter = 0, turboTicks = 0 \<rparr>"
  define s60 where "s60 = \<lparr> pmode = 127, lowbattCounter = 0, turboTicks = TURBO_TIMEOUT \<rparr>"
  have D: "loop_a17 xs s0 = s60 \<and> turbo_count xs s0 = 0 \<and>
      pmode (loop_a17 (xs @ [y]) s0) = drop_bit 1 127 \<and>
      turbo_count (xs @ y # ws) s0 = 1 \<and>
      turboTicks (loop_a17 (xs @ y # ws) s0) = TURBO_TIMEOUT \<and>
      unat (pmode (loop_a17 (xs @ y # ws) s0)) \<le> 63 \<and>
      (pmode (loop_a17 (xs @ y # ws) s0), lowbattCounter (loop_a17 (xs @ y # ws) s0))
        = loop_nanjg ws (drop_bit 1 127, 0) \<and>
      ((\<forall>w\<in>set ws. \<not> w < BATTMON) \<longrightarrow> pmode (loop_a17 (xs @ y # ws) s0) = drop_bit 1 127)"
    if h: "length xs = 60 \<and> (\<forall>x\<in>set xs. \<not> x < BATTMON) \<and> \<not> y < BATTMON"
  proof -
    from h have l: "length xs = 60" and ok: "\<forall>x\<in>set xs. \<not> x < BATTMON" and y: "\<not> y < BATTMON"
      by simp_all
    have b: "loop_a17 xs s0 = s60" "turbo_count xs s0 = 0"
      using turbo_before_timeout[OF ok, of 0] l
      by (simp_all add: s0_def s60_def TURBO_TIMEOUT_def)
    have fy: "turbo_fires y s60"
      by (simp add: turbo_fires_def s60_def battmon_ok[OF y])
    define t where "t = loop_body_a17 y s60"
    have py: "pmode t = 63" unfolding t_def using fy by (rule turbo_fires_result)
    have ty: "turboTicks t = TURBO_TIMEOUT"
      by (simp add: t_def loop_body_a17_def s60_def battmon_ok[OF y] turbo_step_def)
    have cy: "lowbattCounter t = 0"
      by (simp add: t_def loop_body_fields(2) s60_def battmon_ok[OF y])
    have r1: "loop_a17 (xs @ [y]) s0 = t" by (simp add: loop_a17_append b(1) t_def)
    have r2: "loop_a17 (xs @ y # ws) s0 = loop_a17 ws t" by (simp add: loop_a17_append b(1) t_def)
    have c1: "turbo_count (xs @ y # ws) s0 = 1"
      using fy after[OF py] by (simp add: turbo_count_append b t_def)
    have tt: "turboTicks (loop_a17 ws t) = TURBO_TIMEOUT"
      by (rule turboTicks_saturated[OF ty])
    from after[OF py] b c1 tt py show ?thesis
      unfolding r1 r2 cy by simp
  qed
  from A B C D show ?thesis unfolding s0_def s60_def by blast
qed

theorem turbo_one_shot_witness:
  "length (replicate 60 (200::byte)) = 60 \<and> \<not> (200::byte) < BATTMON \<and>
   turbo_fires 200 \<lparr> pmode = 127, lowbattCounter = 0, turboTicks = 60 \<rparr> \<and>
   pmode (loop_body_a17 200 \<lparr> pmode = 127, lowbattCounter = 0, turboTicks = 60 \<rparr>) = 63 \<and>
   \<not> turbo_fires 200 \<lparr> pmode = 63, lowbattCounter = 0, turboTicks = 60 \<rparr> \<and>
   pmode (loop_body_a17 200 \<lparr> pmode = 63, lowbattCounter = 0, turboTicks = 60 \<rparr>) = 63 \<and>
   pmode (loop_a17 (replicate 60 200 @ [200])
     \<lparr> pmode = 127, lowbattCounter = 0, turboTicks = 0 \<rparr>) = 63 \<and>
   turbo_count (replicate 60 200 @ 200 # replicate 20 200)
     \<lparr> pmode = 127, lowbattCounter = 0, turboTicks = 0 \<rparr> = 1 \<and>
   turboTicks (loop_a17 (replicate 60 200 @ 200 # replicate 20 200)
     \<lparr> pmode = 127, lowbattCounter = 0, turboTicks = 0 \<rparr>) = 60 \<and>
   pmode (loop_a17 (replicate 60 200 @ 200 # replicate 20 200)
     \<lparr> pmode = 127, lowbattCounter = 0, turboTicks = 0 \<rparr>) = 63"
proof -
  have h: "length (replicate 60 (200::byte)) = 60"
    "\<forall>x\<in>set (replicate 60 (200::byte)). \<not> x < BATTMON" "\<not> (200::byte) < BATTMON"
    "\<forall>w\<in>set (replicate 20 (200::byte)). \<not> w < BATTMON"
    by (simp_all add: BATTMON_def)
  have f: "turbo_fires 200 \<lparr> pmode = 127, lowbattCounter = 0, turboTicks = 60 \<rparr>"
    "\<not> turbo_fires 200 \<lparr> pmode = 63, lowbattCounter = 0, turboTicks = 60 \<rparr>"
    by (simp_all add: turbo_fires_def battmon_step_def BATTMON_def TURBO_TIMEOUT_def)
  have bs: "fst (battmon_step 200 (63, 0)) = 63"
    by (simp add: battmon_step_def BATTMON_def)
  note t = turbo_one_shot[of "[]" "\<lparr> pmode = 127, lowbattCounter = 0, turboTicks = 60 \<rparr>" 200
      "replicate 20 200" "replicate 60 200" 200]
  note t2 = turbo_one_shot[of "[]" "\<lparr> pmode = 63, lowbattCounter = 0, turboTicks = 60 \<rparr>" 200
      "[]" "[]" 200]
  have a: "pmode (loop_body_a17 200 \<lparr> pmode = 127, lowbattCounter = 0, turboTicks = 60 \<rparr>)
      = drop_bit 1 127"
    using t f(1) by blast
  have a2: "pmode (loop_body_a17 200 \<lparr> pmode = 63, lowbattCounter = 0, turboTicks = 60 \<rparr>)
      = (if turbo_fires 200 \<lparr> pmode = 63, lowbattCounter = 0, turboTicks = 60 \<rparr>
         then drop_bit 1 127
         else fst (battmon_step 200 (pmode \<lparr> pmode = 63, lowbattCounter = 0, turboTicks = 60 \<rparr>,
                lowbattCounter \<lparr> pmode = 63, lowbattCounter = 0, turboTicks = 60 \<rparr>)))"
    using t2 by blast
  have a2': "pmode (loop_body_a17 200 \<lparr> pmode = 63, lowbattCounter = 0, turboTicks = 60 \<rparr>) = 63"
    using a2 f(2) bs by simp
  have b: "pmode (loop_a17 (replicate 60 200 @ [200])
     \<lparr> pmode = 127, lowbattCounter = 0, turboTicks = 0 \<rparr>) = drop_bit 1 127"
    using t h by blast
  have c: "turbo_count (replicate 60 200 @ 200 # replicate 20 200)
     \<lparr> pmode = 127, lowbattCounter = 0, turboTicks = 0 \<rparr> = 1"
    using t h by blast
  have d: "turboTicks (loop_a17 (replicate 60 200 @ 200 # replicate 20 200)
     \<lparr> pmode = 127, lowbattCounter = 0, turboTicks = 0 \<rparr>) = TURBO_TIMEOUT"
    using t h by blast
  have g: "pmode (loop_a17 (replicate 60 200 @ 200 # replicate 20 200)
     \<lparr> pmode = 127, lowbattCounter = 0, turboTicks = 0 \<rparr>) = drop_bit 1 127"
    using t h by blast
  have e: "drop_bit 1 (127::byte) = 63" by simp
  from h(1,3) f a a2' b c d g show ?thesis
    unfolding e TURBO_TIMEOUT_def by blast
qed

section \<open>The battery-check gesture\<close>

lemma newpos_distinct:
  "unat (((x::byte) + 2) AND 31) \<noteq> unat x" "unat (((x::byte) + 2) AND 31) \<noteq> unat x + 1"
  "unat (((x::byte) + 2) AND 31) \<noteq> Suc (unat x)"
proof -
  define u where "u = unat x"
  have n: "unat ((x + 2) AND 31) = (u + 2) mod 32" by (simp only: newpos_unat u_def)
  have "(u + 2) mod 32 \<noteq> u \<and> (u + 2) mod 32 \<noteq> u + 1"
  proof (cases "u < 32")
    case True
    then show ?thesis using slot_distinct(1,2)[of u] by simp
  next
    case False
    have "(u + 2) mod 32 < 32" by simp
    then show ?thesis using False by linarith
  qed
  then show "unat (((x::byte) + 2) AND 31) \<noteq> unat x" "unat (((x::byte) + 2) AND 31) \<noteq> unat x + 1"
    "unat (((x::byte) + 2) AND 31) \<noteq> Suc (unat x)"
    unfolding n u_def by simp_all
qed

text \<open>
  Whatever the EEPROM holds, \<^verbatim>\<open>eepSave\<close> leaves in the first cell of the new slot the
  old content of that cell with the bits of \<open>c\<close> cleared that are 0; for \<open>c = 0\<close> the
  cell is 0.
\<close>

lemma eepSave_tally_cell:
  "eeprom (eepSave c g m s) (unat (eepos (eepSave c g m s)))
     = eeprom s (unat ((eepos s + 2) AND 31)) AND c"
  using newpos_distinct[of "eepos s"]
  by (simp add: eepSave_def Let_def eep_write_only_def eep_erase_only_def)

lemma eepSave_zero_cell:
  "eeprom (eepSave 0 g m s) (unat (eepos (eepSave 0 g m s))) = 0"
  by (simp only: eepSave_tally_cell) simp

lemma eepLoad_nanjg_ticks: "ticks (eepLoad_nanjg cfg s) = ticks s"
  by (simp add: eepLoad_nanjg_def Let_def eepSave_other_fields split: prod.split)

lemma isr_after_lock:
  assumes "50 \<le> unat (ticks s)"
  shows "\<exists>t. wdt_isr_nanjg cfg s = s\<lparr> ticks := t \<rparr> \<and> 50 \<le> unat t"
proof (cases "ticks s < 255")
  case True
  then have "unat (ticks s) < 255" by (simp add: word_less_nat_alt)
  then have u: "unat (ticks s + 1) = unat (ticks s) + 1" by (simp add: unat_word_ariths)
  then have "unat (ticks s + 1) \<noteq> unat LOCKTIME" using assms by (simp add: LOCKTIME_def)
  then have ne: "ticks s + 1 \<noteq> LOCKTIME" by auto
  have "wdt_isr_nanjg cfg s = s\<lparr> ticks := ticks s + 1 \<rparr>"
    using True ne by (simp add: wdt_isr_nanjg_def Let_def)
  moreover have "50 \<le> unat (ticks s + 1)" using u assms by simp
  ultimately show ?thesis by blast
next
  case False
  then have "wdt_isr_nanjg cfg s = s\<lparr> ticks := ticks s \<rparr>"
    by (simp add: wdt_isr_nanjg_def)
  then show ?thesis using assms by blast
qed

lemma funpow_ticks_only:
  assumes f: "\<And>s. 50 \<le> unat (ticks s) \<Longrightarrow> \<exists>t. f s = s\<lparr> ticks := t \<rparr> \<and> 50 \<le> unat t"
  shows "50 \<le> unat (ticks s) \<Longrightarrow> \<exists>t. (f ^^ n) s = s\<lparr> ticks := t \<rparr> \<and> 50 \<le> unat t"
proof (induction n)
  case 0
  then show ?case by (intro exI[of _ "ticks s"]) simp
next
  case (Suc n)
  from Suc obtain t where t: "(f ^^ n) s = s\<lparr> ticks := t \<rparr>" "50 \<le> unat t" by blast
  then have "50 \<le> unat (ticks (s\<lparr> ticks := t \<rparr>))" by simp
  from f[OF this] obtain t' where "f (s\<lparr> ticks := t \<rparr>) = s\<lparr> ticks := t \<rparr>\<lparr> ticks := t' \<rparr>"
    "50 \<le> unat t'" by blast
  then have "(f ^^ Suc n) s = s\<lparr> ticks := t' \<rparr> \<and> 50 \<le> unat t'"
    using t(1) by simp
  then show ?case by blast
qed

lemma doSleep_after_lock:
  assumes "50 \<le> unat (ticks s)"
  shows "\<exists>t. doSleep_nanjg cfg n s = s\<lparr> ticks := t \<rparr> \<and> 50 \<le> unat t"
  unfolding doSleep_nanjg_def
  using funpow_ticks_only[where f = "wdt_isr_nanjg cfg" and s = s and n = "unat n",
      OF isr_after_lock assms]
  by simp

lemma doImpulses_after_lock:
  assumes "50 \<le> unat (ticks s)"
  shows "\<exists>t. doImpulses_nanjg cfg n a b s = s\<lparr> ticks := t \<rparr> \<and> 50 \<le> unat t"
  unfolding doImpulses_nanjg_def
proof (rule funpow_ticks_only[where f = "\<lambda>s. doSleep_nanjg cfg b (doSleep_nanjg cfg a s)",
      OF _ assms])
  fix s :: fw_state
  assume "50 \<le> unat (ticks s)"
  from doSleep_after_lock[OF this, of cfg a] obtain t
    where t: "doSleep_nanjg cfg a s = s\<lparr> ticks := t \<rparr>" "50 \<le> unat t" by blast
  then have "50 \<le> unat (ticks (s\<lparr> ticks := t \<rparr>))" by simp
  from doSleep_after_lock[OF this, of cfg b] obtain t'
    where "doSleep_nanjg cfg b (s\<lparr> ticks := t \<rparr>) = s\<lparr> ticks := t \<rparr>\<lparr> ticks := t' \<rparr>"
      "50 \<le> unat t'" by blast
  then have "doSleep_nanjg cfg b (doSleep_nanjg cfg a s) = s\<lparr> ticks := t' \<rparr> \<and> 50 \<le> unat t'"
    using t(1) by simp
  then show "\<exists>t. doSleep_nanjg cfg b (doSleep_nanjg cfg a s) = s\<lparr> ticks := t \<rparr> \<and> 50 \<le> unat t"
    by blast
qed

lemma doSleep_first_lock:
  assumes "ticks s = 0"
  shows "\<exists>m. doSleep_nanjg cfg 50 s = eepSave 0 (group_no s) m (s\<lparr> ticks := 50 \<rparr>)"
proof -
  have "doSleep_nanjg cfg 50 s = doSleep_nanjg cfg LOCKTIME s" by (simp add: LOCKTIME_def)
  then show ?thesis
    unfolding doSleep_locktime[OF assms] by (cases "MEM cfg") auto
qed

lemma battcheck_a17_zero:
  "eeprom (battcheck_a17 s) (unat (eepos (battcheck_a17 s))) = 0"
  unfolding battcheck_a17_def by (rule eepSave_zero_cell)

lemma groupchange_a17_zero:
  "eeprom (groupchange_a17 cfg s) (unat (eepos (groupchange_a17 cfg s))) = 0"
  unfolding groupchange_a17_def Let_def by (rule eepSave_zero_cell)

lemma main_a17_persists_zero:
  assumes "BATTCHECK \<le> shortClicks (eepLoad_a17 cfg cap (power_on e))"
  shows "eeprom (final_state (main_a17 cfg e cap v))
           (unat (eepos (final_state (main_a17 cfg e cap v)))) = 0"
  using assms battcheck_a17_zero groupchange_a17_zero
  by (simp add: main_a17_def Let_def)

lemma battcheck_nanjg_zero:
  assumes t: "ticks s = 0"
  shows "50 \<le> unat (ticks (battcheck_nanjg cfg v s))"
    and "shortClicks (battcheck_nanjg cfg v s) = 0"
    and "eeprom (battcheck_nanjg cfg v s) (unat (eepos (battcheck_nanjg cfg v s))) = 0"
proof -
  define sa where "sa = doSleep_nanjg cfg 50 s"
  obtain m where m: "sa = eepSave 0 (group_no s) m (s\<lparr> ticks := 50 \<rparr>)"
    using doSleep_first_lock[OF t, of cfg] sa_def by auto
  have za: "eeprom sa (unat (eepos sa)) = 0"
    unfolding m by (rule eepSave_zero_cell)
  have ta: "50 \<le> unat (ticks sa)" by (simp add: m eepSave_other_fields)
  obtain t1 where t1: "doImpulses_nanjg cfg (blinksCount v) 10 20 sa = sa\<lparr> ticks := t1 \<rparr>"
    "50 \<le> unat t1"
    using doImpulses_after_lock[OF ta] by blast
  define sc where "sc = sa\<lparr> ticks := t1, shortClicks := 0 \<rparr>"
  have tc: "50 \<le> unat (ticks sc)" using t1(2) by (simp add: sc_def)
  obtain t2 where t2: "doSleep_nanjg cfg 50 sc = sc\<lparr> ticks := t2 \<rparr>" "50 \<le> unat t2"
    using doSleep_after_lock[OF tc] by blast
  have r: "battcheck_nanjg cfg v s = sc\<lparr> ticks := t2 \<rparr>"
    by (simp add: battcheck_nanjg_def Let_def sa_def[symmetric] t1(1) sc_def[symmetric] t2(1))
  show "50 \<le> unat (ticks (battcheck_nanjg cfg v s))" using t2(2) by (simp add: r)
  show "shortClicks (battcheck_nanjg cfg v s) = 0" by (simp add: r sc_def)
  show "eeprom (battcheck_nanjg cfg v s) (unat (eepos (battcheck_nanjg cfg v s))) = 0"
    using za by (simp add: r sc_def)
qed

lemma groupchange_nanjg_zero:
  assumes t: "50 \<le> unat (ticks s)" and z: "shortClicks s = 0"
  shows "shortClicks (groupchange_nanjg cfg s) = 0"
    and "eeprom (groupchange_nanjg cfg s) (unat (eepos (groupchange_nanjg cfg s))) = 0"
proof -
  obtain t1 where t1: "doSleep_nanjg cfg (LOCKTIME * 2) s = s\<lparr> ticks := t1 \<rparr>" "50 \<le> unat t1"
    using doSleep_after_lock[OF t] by blast
  define sa where "sa = s\<lparr> ticks := t1 \<rparr>"
  define sb where "sb = eepSave 0 (of_nat ((unat (group_no sa) + 1) mod GROUPS_COUNT cfg)) 0 sa"
  have tb: "50 \<le> unat (ticks sb)" using t1(2) by (simp add: sb_def sa_def eepSave_other_fields)
  have zb: "shortClicks sb = 0" using z by (simp add: sb_def sa_def eepSave_other_fields)
  obtain t2 where t2: "doSleep_nanjg cfg (LOCKTIME div 10) sb = sb\<lparr> ticks := t2 \<rparr>" "50 \<le> unat t2"
    using doSleep_after_lock[OF tb] by blast
  define sc where "sc = sb\<lparr> ticks := t2 \<rparr>"
  have tc: "50 \<le> unat (ticks sc)" using t2(2) by (simp add: sc_def)
  obtain t3 where t3: "doSleep_nanjg cfg LOCKTIME sc = sc\<lparr> ticks := t3 \<rparr>" "50 \<le> unat t3"
    using doSleep_after_lock[OF tc] by blast
  define sd where "sd = sc\<lparr> ticks := t3 \<rparr>"
  have zd: "shortClicks sd = 0" using zb by (simp add: sd_def sc_def)
  have r: "groupchange_nanjg cfg s =
      (case MEM cfg of
            MEM_NEXT \<Rightarrow> eepSave 0 (group_no sd) (getNextMode cfg (group_no sd) (mode_no sd)) sd
          | MEM_FIRST \<Rightarrow> eepSave 0 (group_no sd) GROUP_CHANGE_MODE sd
          | MEM_LAST \<Rightarrow> eepSave 0 (group_no sd) GROUP_CHANGE_MODE sd)"
    unfolding groupchange_nanjg_def Let_def t1(1) sa_def[symmetric] sb_def[symmetric] t2(1)
      sc_def[symmetric] t3(1) sd_def[symmetric] by (rule refl)
  show "shortClicks (groupchange_nanjg cfg s) = 0"
    using zd by (simp add: r eepSave_other_fields split: mem_policy.split)
  show "eeprom (groupchange_nanjg cfg s) (unat (eepos (groupchange_nanjg cfg s))) = 0"
    by (simp add: r eepSave_zero_cell split: mem_policy.split)
qed

lemma main_nanjg_persists_zero:
  assumes "BATTCHECK \<le> shortClicks (eepLoad_nanjg cfg (power_on e))"
  shows "shortClicks (final_state (main_nanjg cfg e v)) = 0"
    and "eeprom (final_state (main_nanjg cfg e v))
           (unat (eepos (final_state (main_nanjg cfg e v)))) = 0"
proof -
  have t0: "ticks (eepLoad_nanjg cfg (power_on e)) = 0"
    by (simp add: eepLoad_nanjg_ticks power_on_def)
  note b = battcheck_nanjg_zero[OF t0, of cfg v]
  note g = groupchange_nanjg_zero[OF b(1,2), of cfg]
  show "shortClicks (final_state (main_nanjg cfg e v)) = 0"
    using assms b(2) g(1) by (simp add: main_nanjg_def Let_def)
  show "eeprom (final_state (main_nanjg cfg e v))
           (unat (eepos (final_state (main_nanjg cfg e v)))) = 0"
    using assms b(3) g(2) by (simp add: main_nanjg_def Let_def)
qed

text \<open>
  Claim C5, as stated, fails: the battery-check display does not run instead of the
  normal mode display. After the blinks \<^verbatim>\<open>main\<close> goes on to the group-change blink and
  to the switch on the mode value. With a stored tally of 15 and a short session the
  resolved tally is 16: the battery level is shown with four blinks, and then mode 2 of
  group 0 is displayed (value 128 on the Nanjg board, 64 on the A17DD-L board).
\<close>

theorem battcheck_then_normal_display:
  "battcheck_shown (main_nanjg nanjg_config (erased(0 := 0x8f, 1 := 0x01)) 180) = Some 4 \<and>
   display_mode (main_nanjg nanjg_config (erased(0 := 0x8f, 1 := 0x01)) 180) = Pwm 128 \<and>
   battcheck_shown (main_a17 a17_config (erased(0 := 0x0f, 1 := 0x01)) 200 180) = Some 4 \<and>
   display_mode (main_a17 a17_config (erased(0 := 0x0f, 1 := 0x01)) 200 180) = Pwm 64"
proof -
  define en where "en = erased(0 := 0x8f, 1 := (0x01::byte))"
  define ea where "ea = erased(0 := 0x0f, 1 := (0x01::byte))"
  have hn: "(0::nat) \<le> 30" "\<forall>a<0. en a = 0xff" "en 0 \<noteq> 0xff"
    and ha: "\<forall>a<0. ea a = 0xff" "ea 0 \<noteq> 0xff"
    by (simp_all add: en_def ea_def)
  note n = eepLoad_nanjg_found[OF hn, of nanjg_config]
  note a = eepLoad_a17_found[OF hn(1) ha, of a17_config 200]
  have vn: "en 0 = 0x8f" "en (0 + 1) = 1" and va: "ea 0 = 0x0f" "ea (0 + 1) = 1"
    by (simp_all add: en_def ea_def)
  have dn: "decodeGroup nanjg_config 1 = 0" "decodeMode nanjg_config 1 = 1"
    "getNextMode nanjg_config 0 1 = 2"
    by (simp_all add: decodeGroup_def decodeMode_def getNextMode_def nanjg_config_def
        pgm_read_byte_def Let_def)
  have da: "decodeGroup a17_config 1 = 0" "decodeMode a17_config 1 = 1"
    "getNextMode a17_config 0 1 = 2"
    by (simp_all add: decodeGroup_def decodeMode_def getNextMode_def a17_config_def
        pgm_read_byte_def Let_def)
  have rn: "group_no (eepLoad_nanjg nanjg_config (power_on en)) = 0"
    "mode_no (eepLoad_nanjg nanjg_config (power_on en)) = 2"
    "shortClicks (eepLoad_nanjg nanjg_config (power_on en)) = 16"
    using n(1-3) unfolding vn dn by simp_all
  have ra: "group_no (eepLoad_a17 a17_config 200 (power_on ea)) = 0"
    "mode_no (eepLoad_a17 a17_config 200 (power_on ea)) = 2"
    "shortClicks (eepLoad_a17 a17_config 200 (power_on ea)) = 16"
    using a(1-3) unfolding va da by (simp_all add: CAP_THRESHOLD_def)
  have "battcheck_shown (main_nanjg nanjg_config en 180) = Some 4"
    unfolding main_nanjg_fields rn by (simp add: BATTCHECK_def blinksCount_def)
  moreover have "display_mode (main_nanjg nanjg_config en 180) = Pwm 128"
    unfolding main_nanjg_fields rn
    by (simp add: pgm_read_byte_def nanjg_config_def switch_nanjg_def STROBE_def PSTROBE_def
        SOS_def)
  moreover have "battcheck_shown (main_a17 a17_config ea 200 180) = Some 4"
    unfolding main_a17_fields ra by (simp add: BATTCHECK_def blinksCount_def)
  moreover have "display_mode (main_a17 a17_config ea 200 180) = Pwm 64"
    unfolding main_a17_fields ra
    by (simp add: pgm_read_byte_def a17_config_def switch_a17_def STROBE_a17_def
        PSTROBE_a17_def SOS_a17_def)
  ultimately show ?thesis unfolding en_def ea_def by blast
qed

text \<open>
  Claim C5, amended. For every boot of the v2.0 firmware, whatever the EEPROM holds, the
  battery level is shown exactly when the resolved tally is at least \<^verbatim>\<open>BATTCHECK\<close>,
  and it is shown before the normal mode display, not instead of it: in both cases
  \<^verbatim>\<open>main\<close> ends in the branch of the switch that belongs to the resolved group and
  mode. When the battery level was shown, the tally byte of the current record is 0 when
  \<^verbatim>\<open>main\<close> reaches the switch: the A17DD-L source writes it with
  \<^verbatim>\<open>eepSave(0, group, mode)\<close> after the blinks; the Nanjg source sets the variable
  \<^verbatim>\<open>shortClicks\<close> to 0 after the blinks, and the record with tally 0 is the one the
  watchdog handler wrote at tick \<^verbatim>\<open>LOCKTIME\<close>, during the sleep before the blinks.
\<close>

theorem battcheck_gesture:
  "(battcheck_shown (main_a17 cfg e cap v) \<noteq> None) =
     (BATTCHECK \<le> shortClicks (eepLoad_a17 cfg cap (power_on e))) \<and>
   (battcheck_shown (main_nanjg cfg e v) \<noteq> None) =
     (BATTCHECK \<le> shortClicks (eepLoad_nanjg cfg (power_on e))) \<and>
   display_mode (main_a17 cfg e cap v) =
     switch_a17 (pgm_read_byte cfg (group_no (eepLoad_a17 cfg cap (power_on e)))
                                   (mode_no (eepLoad_a17 cfg cap (power_on e)))) \<and>
   display_mode (main_nanjg cfg e v) =
     switch_nanjg (pgm_read_byte cfg (group_no (eepLoad_nanjg cfg (power_on e)))
                                     (mode_no (eepLoad_nanjg cfg (power_on e)))) \<and>
   (battcheck_shown (main_a17 cfg e cap v) \<noteq> None \<longrightarrow>
      eeprom (final_state (main_a17 cfg e cap v))
        (unat (eepos (final_state (main_a17 cfg e cap v)))) = 0) \<and>
   (battcheck_shown (main_nanjg cfg e v) \<noteq> None \<longrightarrow>
      shortClicks (final_state (main_nanjg cfg e v)) = 0 \<and>
      eeprom (final_state (main_nanjg cfg e v))
        (unat (eepos (final_state (main_nanjg cfg e v)))) = 0)"
proof -
  have A: "(battcheck_shown (main_a17 cfg e cap v) \<noteq> None) =
     (BATTCHECK \<le> shortClicks (eepLoad_a17 cfg cap (power_on e)))"
    by (simp add: main_a17_fields)
  have N: "(battcheck_shown (main_nanjg cfg e v) \<noteq> None) =
     (BATTCHECK \<le> shortClicks (eepLoad_nanjg cfg (power_on e)))"
    by (simp add: main_nanjg_fields)
  have P: "(battcheck_shown (main_a17 cfg e cap v) \<noteq> None \<longrightarrow>
         eeprom (final_state (main_a17 cfg e cap v))
           (unat (eepos (final_state (main_a17 cfg e cap v)))) = 0) \<and>
      (battcheck_shown (main_nanjg cfg e v) \<noteq> None \<longrightarrow>
         shortClicks (final_state (main_nanjg cfg e v)) = 0 \<and>
         eeprom (final_state (main_nanjg cfg e v))
           (unat (eepos (final_state (main_nanjg cfg e v)))) = 0)"
    unfolding A N
    using main_a17_persists_zero[of cfg cap e v] main_nanjg_persists_zero[of cfg e v]
    by blast
  from A N P main_a17_fields(2)[of cfg e cap v] main_nanjg_fields(2)[of cfg e v]
  show ?thesis by blast
qed

theorem battcheck_gesture_witness:
  "BATTCHECK \<le> shortClicks (eepLoad_a17 a17_config 200 (power_on (erased(0 := 0x0f, 1 := 0x01)))) \<and>
   BATTCHECK \<le> shortClicks (eepLoad_nanjg nanjg_config (power_on (erased(0 := 0x8f, 1 := 0x01)))) \<and>
   battcheck_shown (main_a17 a17_config (erased(0 := 0x0f, 1 := 0x01)) 200 180) \<noteq> None \<and>
   battcheck_shown (main_nanjg nanjg_config (erased(0 := 0x8f, 1 := 0x01)) 180) \<noteq> None \<and>
   eeprom (final_state (main_a17 a17_config (erased(0 := 0x0f, 1 := 0x01)) 200 180))
     (unat (eepos (final_state (main_a17 a17_config (erased(0 := 0x0f, 1 := 0x01)) 200 180)))) = 0 \<and>
   shortClicks (final_state (main_nanjg nanjg_config (erased(0 := 0x8f, 1 := 0x01)) 180)) = 0 \<and>
   eeprom (final_state (main_nanjg nanjg_config (erased(0 := 0x8f, 1 := 0x01)) 180))
     (unat (eepos (final_state (main_nanjg nanjg_config (erased(0 := 0x8f, 1 := 0x01)) 180)))) = 0"
proof -
  define en where "en = erased(0 := 0x8f, 1 := (0x01::byte))"
  define ea where "ea = erased(0 := 0x0f, 1 := (0x01::byte))"
  have h: "(0::nat) \<le> 30" "\<forall>a<0. en a = 0xff" "en 0 \<noteq> 0xff" "\<forall>a<0. ea a = 0xff" "ea 0 \<noteq> 0xff"
    by (simp_all add: en_def ea_def)
  have vn: "en 0 = 0x8f" and va: "ea 0 = 0x0f" by (simp_all add: en_def ea_def)
  have sa: "BATTCHECK \<le> shortClicks (eepLoad_a17 a17_config 200 (power_on ea))"
    unfolding eepLoad_a17_found(3)[OF h(1,4,5)] va
    by (simp add: CAP_THRESHOLD_def BATTCHECK_def)
  have sn: "BATTCHECK \<le> shortClicks (eepLoad_nanjg nanjg_config (power_on en))"
    unfolding eepLoad_nanjg_found(3)[OF h(1-3)] vn
    by (simp add: BATTCHECK_def)
  note ta = battcheck_gesture[of a17_config ea 200 180]
  note tn = battcheck_gesture[of nanjg_config en 200 180]
  have a1: "battcheck_shown (main_a17 a17_config ea 200 180) \<noteq> None"
    using ta sa by blast
  have n1: "battcheck_shown (main_nanjg nanjg_config en 180) \<noteq> None"
    using tn sn by blast
  have a2: "eeprom (final_state (main_a17 a17_config ea 200 180))
     (unat (eepos (final_state (main_a17 a17_config ea 200 180)))) = 0"
    using ta a1 by blast
  have n2: "shortClicks (final_state (main_nanjg nanjg_config en 180)) = 0"
    "eeprom (final_state (main_nanjg nanjg_config en 180))
     (unat (eepos (final_state (main_nanjg nanjg_config en 180)))) = 0"
    using tn n1 by blast+
  from sa sn a1 n1 a2 n2 show ?thesis unfolding en_def ea_def by blast
qed

end
